theory Spec2Isabelle
  imports Main
begin

section \<open>Byte strings\<close>

text \<open>
  Go strings are byte sequences; they are modelled as \<open>string\<close> (a list of characters).
  \<open>hasPrefix\<close> is \<open>strings.HasPrefix\<close>, \<open>bytesContains\<close> is \<open>bytes.Contains\<close>, and
  \<open>replaceAll\<close> is \<open>strings.ReplaceAll\<close>: it scans from the left and replaces
  non-overlapping occurrences of \<open>old\<close>. The program only calls it with a non-empty
  \<open>old\<close>; for an empty \<open>old\<close> the equations insert \<open>new\<close> before every byte and at the
  end, which is what Go does on single-byte runes.
\<close>

fun hasPrefix :: "string \<Rightarrow> string \<Rightarrow> bool" where
  "hasPrefix s [] = True"
| "hasPrefix [] (p # ps) = False"
| "hasPrefix (c # cs) (p # ps) = (c = p \<and> hasPrefix cs ps)"

fun bytesContains :: "string \<Rightarrow> string \<Rightarrow> bool" where
  "bytesContains [] sub = hasPrefix [] sub"
| "bytesContains (c # cs) sub = (hasPrefix (c # cs) sub \<or> bytesContains cs sub)"

function replaceAll :: "string \<Rightarrow> string \<Rightarrow> string \<Rightarrow> string" where
  "replaceAll [] old new = (if old = [] then new else [])"
| "replaceAll (c # cs) old new =
     (if old = [] then new @ c # replaceAll cs old new
      else if hasPrefix (c # cs) old
        then new @ replaceAll (drop (length old) (c # cs)) old new
        else c # replaceAll cs old new)"
  by pat_completeness auto
termination
  by (relation "measure (\<lambda>(s, old, new). length s)") auto

section \<open>Name generator\<close>

text \<open>
  \<open>generatePermutations\<close> reads the suffix list from the wordlist file and then builds
  the candidates. Reading the file is the only effect; the list of lines it returns is
  the parameter \<open>suffixes\<close> here, and the failure of the read is part of \<open>main_setup\<close>
  below.
\<close>

definition permutations :: "string list" where
  "permutations =
     [''{keyword}-{suffix}'', ''{suffix}-{keyword}'',
      ''{keyword}_{suffix}'', ''{suffix}_{keyword}'',
      ''{keyword}{suffix}'', ''{suffix}{keyword}'']"

definition expand :: "string \<Rightarrow> string \<Rightarrow> string \<Rightarrow> string" where
  "expand keyword suffix template =
     replaceAll (replaceAll template ''{keyword}'' keyword) ''{suffix}'' suffix"

definition rawBuckets :: "string \<Rightarrow> string list \<Rightarrow> string list" where
  "rawBuckets keyword suffixes =
     concat (map (\<lambda>suffix. map (expand keyword suffix) permutations) suffixes)
     @ [keyword, keyword @ ''.com'', keyword @ ''.net'', keyword @ ''.org'']"

fun removeDuplicates_loop :: "string list \<Rightarrow> string set \<Rightarrow> string list \<Rightarrow> string list" where
  "removeDuplicates_loop [] seen result = result"
| "removeDuplicates_loop (v # vs) seen result =
     (if v \<notin> seen then removeDuplicates_loop vs (insert v seen) (result @ [v])
      else removeDuplicates_loop vs seen result)"

definition removeDuplicates :: "string list \<Rightarrow> string list" where
  "removeDuplicates input = removeDuplicates_loop input {} []"

definition generatePermutations :: "string \<Rightarrow> string list \<Rightarrow> string list" where
  "generatePermutations keyword suffixes = removeDuplicates (rawBuckets keyword suffixes)"

text \<open>
  The specification's reading of the templates: the keyword and the suffix joined by
  \<open>-\<close>, by \<open>_\<close> or by nothing, in both orders; and the four keyword-only forms.
\<close>

definition templateExpansions :: "string \<Rightarrow> string \<Rightarrow> string list" where
  "templateExpansions k s =
     [k @ ''-'' @ s, s @ ''-'' @ k, k @ ''_'' @ s, s @ ''_'' @ k, k @ s, s @ k]"

definition keywordForms :: "string \<Rightarrow> string list" where
  "keywordForms k = [k, k @ ''.com'', k @ ''.net'', k @ ''.org'']"

text \<open>First occurrence wins: the head is kept and its later copies are dropped.\<close>

fun firstOccurrences :: "string list \<Rightarrow> string list" where
  "firstOccurrences [] = []"
| "firstOccurrences (x # xs) = x # firstOccurrences (filter (\<lambda>y. y \<noteq> x) xs)"

text \<open>
  A keyword is free of the suffix placeholder when the text \<open>{suffix}\<close> does not occur
  in it.
\<close>

definition noPlaceholder :: "string \<Rightarrow> bool" where
  "noPlaceholder k = (\<not> bytesContains k ''{suffix}'')"

section \<open>Network, prober and lister\<close>

text \<open>
  The network is a parameter. A request either fails at transport level, with the text
  of the error, or yields a response. The response to a GET request is a status code and
  a body: the bytes that reading it to the end delivers together with the error, if
  any, that ended the read (\<open>ioutil.ReadAll\<close> returns both). The response to a HEAD
  request is a status code only: the client delivers no body for it, whatever the server
  would send for a GET of the same URL, so reading it to the end yields \<open>headBody\<close>, no
  bytes. \<open>jsonDecode\<close> is the decoder of \<open>encoding/json\<close> applied to a body: the text of
  its error, or the decoded \<open>ObjectListResponse\<close>. Status codes are natural numbers, as
  the HTTP client only accepts such.
\<close>

record Object =
  Name :: string

record ObjectListResponse =
  Items :: "Object list"

record response_body =
  content :: string
  readError :: "string option"

datatype head_result = HeadError string | HeadResponse nat

definition headBody :: string where
  "headBody = []"

datatype get_result = GetError string | GetResponse nat response_body

record network =
  httpHead :: "string \<Rightarrow> head_result"
  httpGet :: "string \<Rightarrow> get_result"
  jsonDecode :: "response_body \<Rightarrow> string + ObjectListResponse"

text \<open>Decimal rendering of a number, the \<open>%d\<close> of \<open>fmt\<close>.\<close>

fun digitsOf :: "nat \<Rightarrow> string" where
  "digitsOf n =
     (if n < 10 then [''0123456789'' ! n]
      else digitsOf (n div 10) @ [''0123456789'' ! (n mod 10)])"

declare digitsOf.simps [simp del]

text \<open>
  What a candidate's execution unit does, in order: the requests it issues and the lines
  it sends on the output channel. \<open>listObjects\<close> and \<open>checkBucket\<close> return this
  sequence; \<open>wg.Done\<close>, which \<open>checkBucket\<close> defers, is the \<open>Return\<close> event of the scan
  below.
\<close>

datatype action = Head string | Get string | Send string

definition listObjects :: "network \<Rightarrow> string \<Rightarrow> action list" where
  "listObjects net bucket =
     (let apiURL = ''https://www.googleapis.com/storage/v1/b/'' @ bucket @ ''/o'' in
      Get apiURL #
      (case httpGet net apiURL of
         GetError err \<Rightarrow>
           [Send (''ERROR: Could not list objects in '' @ bucket @ '' - '' @ err)]
       | GetResponse status body \<Rightarrow>
           if status = 200 then
             (case jsonDecode net body of
                Inl err \<Rightarrow>
                  [Send (''ERROR: Could not parse object list for '' @ bucket @ '' - '' @ err)]
              | Inr objectList \<Rightarrow>
                  Send (''    LISTABLE: '' @ bucket)
                  # map (\<lambda>obj. Send (''        - '' @ Name obj)) (Items objectList))
           else []))"

definition checkBucket :: "network \<Rightarrow> string \<Rightarrow> bool \<Rightarrow> action list" where
  "checkBucket net bucket verbose =
     (let bucketURL = ''https://storage.googleapis.com/'' @ bucket @ ''/'';
          apiURL = ''https://www.googleapis.com/storage/v1/b/'' @ bucket in
      Head apiURL #
      (case httpHead net apiURL of
         HeadError err \<Rightarrow>
           [Send (''ERROR: Could not connect to '' @ apiURL @ '' - '' @ err)]
       | HeadResponse status \<Rightarrow>
           if status = 404 then []
           else if status = 403 then
             (let body = headBody in
              if bytesContains body ''Access denied'' \<or> bytesContains body ''does not have''
              then []
              else [Send (''EXISTS: '' @ bucketURL)])
           else if status = 200 then
             Send (''EXISTS: '' @ bucketURL) # listObjects net bucket
           else if verbose then
             [Send (''UNKNOWN RESPONSE for '' @ bucketURL @ '': '' @ digitsOf status)]
           else []))"

fun sent :: "action list \<Rightarrow> string list" where
  "sent [] = []"
| "sent (Send line # as) = line # sent as"
| "sent (Head url # as) = sent as"
| "sent (Get url # as) = sent as"

fun requests :: "action list \<Rightarrow> action list" where
  "requests [] = []"
| "requests (Send line # as) = requests as"
| "requests (Head url # as) = Head url # requests as"
| "requests (Get url # as) = Get url # requests as"

section \<open>The concurrent scan\<close>

text \<open>
  The scan of \<open>main\<close>, from the creation of the channels to the return of \<open>main\<close>, as a
  transition system whose events are the atomic steps of the goroutines; a schedule (a
  list of events) is one interleaving.

  A unit is the goroutine of one candidate. It is \<open>Blocked\<close> before \<open>sem <- struct{}{}\<close>,
  \<open>Running\<close> inside \<open>checkBucket\<close> with the actions it has still to perform, \<open>Returned\<close>
  once \<open>checkBucket\<close> has returned (its deferred \<open>wg.Done\<close> has run) and before \<open><-sem\<close>,
  and \<open>Finished\<close> after \<open><-sem\<close>.

  The main goroutine is \<open>Spawning\<close> with the buckets of its loop still to come, then
  starts the goroutine that drains the output channel and is \<open>Waiting\<close> in \<open>wg.Wait\<close>,
  then has \<open>Closed\<close> the channel, then has returned: the program has \<open>Exited\<close> and no
  goroutine runs any more.

  \<open>sem\<close> is the number of elements in the buffered channel \<open>sem\<close>, \<open>wg\<close> the counter of the
  wait group, \<open>received\<close> the lines the draining goroutine has taken from the unbuffered
  channel \<open>output\<close>, each with the index of the unit that sent it, and \<open>issued\<close> the
  requests made, each with the index of its unit. A send on \<open>output\<close> completes only
  while the draining goroutine runs and the channel is open. \<open>wg.Done\<close> on a zero
  counter and a send on a closed channel panic in Go; here the event is not enabled.
\<close>

datatype unit_state = Blocked "action list" | Running "action list" | Returned | Finished

datatype main_state = Spawning "string list" | Waiting | Closed | Exited

record scan =
  mainPc :: main_state
  units :: "unit_state list"
  sem :: nat
  wg :: nat
  received :: "(nat \<times> string) list"
  issued :: "(nat \<times> action) list"

datatype event =
  Spawn | StartSink | Acquire nat | Act nat | Return nat | Release nat | Close | Exit

definition scan_init :: "string list \<Rightarrow> scan" where
  "scan_init buckets =
     \<lparr>mainPc = Spawning buckets, units = [], sem = 0, wg = 0, received = [], issued = []\<rparr>"

fun perform :: "scan \<Rightarrow> nat \<Rightarrow> action \<Rightarrow> action list \<Rightarrow> scan option" where
  "perform s i (Send line) prog =
     (if mainPc s = Waiting
      then Some (s\<lparr>units := (units s)[i := Running prog],
                   received := received s @ [(i, line)]\<rparr>)
      else None)"
| "perform s i (Head url) prog =
     Some (s\<lparr>units := (units s)[i := Running prog], issued := issued s @ [(i, Head url)]\<rparr>)"
| "perform s i (Get url) prog =
     Some (s\<lparr>units := (units s)[i := Running prog], issued := issued s @ [(i, Get url)]\<rparr>)"

fun unit_step :: "nat \<Rightarrow> scan \<Rightarrow> event \<Rightarrow> nat \<Rightarrow> unit_state \<Rightarrow> scan option" where
  "unit_step limit s (Acquire j) i (Blocked prog) =
     (if sem s < limit
      then Some (s\<lparr>units := (units s)[i := Running prog], sem := sem s + 1\<rparr>)
      else None)"
| "unit_step limit s (Act j) i (Running (a # prog)) = perform s i a prog"
| "unit_step limit s (Return j) i (Running []) =
     (if 0 < wg s
      then Some (s\<lparr>units := (units s)[i := Returned], wg := wg s - 1\<rparr>)
      else None)"
| "unit_step limit s (Release j) i Returned =
     (if 0 < sem s
      then Some (s\<lparr>units := (units s)[i := Finished], sem := sem s - 1\<rparr>)
      else None)"
| "unit_step limit s e i u = None"

fun eventUnit :: "event \<Rightarrow> nat option" where
  "eventUnit (Acquire i) = Some i"
| "eventUnit (Act i) = Some i"
| "eventUnit (Return i) = Some i"
| "eventUnit (Release i) = Some i"
| "eventUnit e = None"

definition step :: "network \<Rightarrow> bool \<Rightarrow> nat \<Rightarrow> scan \<Rightarrow> event \<Rightarrow> scan option" where
  "step net verbose limit s e =
     (case eventUnit e of
        Some i \<Rightarrow>
          if mainPc s \<noteq> Exited \<and> i < length (units s)
          then unit_step limit s e i (units s ! i)
          else None
      | None \<Rightarrow>
          (case (e, mainPc s) of
             (Spawn, Spawning (bucket # rest)) \<Rightarrow>
               Some (s\<lparr>mainPc := Spawning rest,
                       units := units s @ [Blocked (checkBucket net bucket verbose)],
                       wg := wg s + 1\<rparr>)
           | (StartSink, Spawning []) \<Rightarrow> Some (s\<lparr>mainPc := Waiting\<rparr>)
           | (Close, Waiting) \<Rightarrow> if wg s = 0 then Some (s\<lparr>mainPc := Closed\<rparr>) else None
           | (Exit, Closed) \<Rightarrow> Some (s\<lparr>mainPc := Exited\<rparr>)
           | _ \<Rightarrow> None))"

fun run :: "network \<Rightarrow> bool \<Rightarrow> nat \<Rightarrow> scan \<Rightarrow> event list \<Rightarrow> scan option" where
  "run net verbose limit s [] = Some s"
| "run net verbose limit s (e # es) =
     (case step net verbose limit s e of
        None \<Rightarrow> None
      | Some s' \<Rightarrow> run net verbose limit s' es)"

text \<open>
  A unit holds a permit from its acquisition to its release; the wait group still
  counts it until \<open>checkBucket\<close> returns.
\<close>

fun holdsPermit :: "unit_state \<Rightarrow> bool" where
  "holdsPermit (Running prog) = True"
| "holdsPermit Returned = True"
| "holdsPermit u = False"

fun awaited :: "unit_state \<Rightarrow> bool" where
  "awaited (Blocked prog) = True"
| "awaited (Running prog) = True"
| "awaited u = False"

fun remaining :: "unit_state \<Rightarrow> action list" where
  "remaining (Blocked prog) = prog"
| "remaining (Running prog) = prog"
| "remaining u = []"

definition permits :: "scan \<Rightarrow> nat" where
  "permits s = length (filter holdsPermit (units s))"

definition linesOf :: "nat \<Rightarrow> (nat \<times> string) list \<Rightarrow> string list" where
  "linesOf i rs = map snd (filter (\<lambda>r. fst r = i) rs)"

text \<open>
  The lines of unit \<open>i\<close> are contiguous in a stream when, after the first run of lines of
  \<open>i\<close>, no further line of \<open>i\<close> follows.
\<close>

definition contiguous :: "nat \<Rightarrow> (nat \<times> string) list \<Rightarrow> bool" where
  "contiguous i rs =
     (filter (\<lambda>r. fst r = i)
        (dropWhile (\<lambda>r. fst r = i) (dropWhile (\<lambda>r. fst r \<noteq> i) rs)) = [])"

text \<open>An upper bound on the number of events still to come.\<close>

fun unitBudget :: "unit_state \<Rightarrow> nat" where
  "unitBudget (Blocked prog) = length prog + 3"
| "unitBudget (Running prog) = length prog + 2"
| "unitBudget Returned = 1"
| "unitBudget Finished = 0"

fun mainBudget :: "network \<Rightarrow> bool \<Rightarrow> main_state \<Rightarrow> nat" where
  "mainBudget net verbose (Spawning rest) =
     sum_list (map (\<lambda>bucket. length (checkBucket net bucket verbose) + 4) rest) + 3"
| "mainBudget net verbose Waiting = 2"
| "mainBudget net verbose Closed = 1"
| "mainBudget net verbose Exited = 0"

definition budget :: "network \<Rightarrow> bool \<Rightarrow> scan \<Rightarrow> nat" where
  "budget net verbose s =
     mainBudget net verbose (mainPc s) + sum_list (map unitBudget (units s))"

text \<open>
  The invariant of the scan of a list \<open>buckets\<close>: the channel \<open>sem\<close> holds one element per
  unit holding a permit and never more than its capacity; the wait group counts the
  units that have not returned from \<open>checkBucket\<close>; unit \<open>i\<close> probes \<open>buckets ! i\<close>, and
  the lines received from it followed by the lines it has still to send are the lines of
  its probe; only a unit that has acquired a permit has issued a request; the channel is
  closed only on a zero counter.
\<close>

fun acquired :: "unit_state \<Rightarrow> bool" where
  "acquired (Blocked prog) = False"
| "acquired u = True"

fun unspawned :: "main_state \<Rightarrow> string list" where
  "unspawned (Spawning rest) = rest"
| "unspawned m = []"

definition scan_inv :: "network \<Rightarrow> bool \<Rightarrow> nat \<Rightarrow> string list \<Rightarrow> scan \<Rightarrow> bool" where
  "scan_inv net verbose limit buckets s \<longleftrightarrow>
     sem s = permits s \<and> sem s \<le> limit
     \<and> wg s = length (filter awaited (units s))
     \<and> length (units s) \<le> length buckets
     \<and> unspawned (mainPc s) = drop (length (units s)) buckets
     \<and> (\<forall>r \<in> set (received s). fst r < length (units s))
     \<and> (\<forall>i < length (units s).
           linesOf i (received s) @ sent (remaining (units s ! i))
           = sent (checkBucket net (buckets ! i) verbose))
     \<and> (\<forall>r \<in> set (issued s). fst r < length (units s) \<and> acquired (units s ! fst r))
     \<and> (mainPc s = Closed \<or> mainPc s = Exited \<longrightarrow> wg s = 0)"

section \<open>Example networks\<close>

text \<open>
  Networks used at concrete inputs: one where the provider denies access to every
  bucket, with status 403 and, on a GET, a body holding its denial message; one where
  every bucket exists and lists the objects \<open>a.txt\<close> and \<open>b.txt\<close>;
  one where every request fails at transport level; one where every bucket exists and
  the listing answers with a given status and a body that is not JSON.
\<close>

definition netDenied :: network where
  "netDenied =
     \<lparr>httpHead = (\<lambda>url. HeadResponse 403),
      httpGet = (\<lambda>url. GetResponse 403 \<lparr>content = ''Access denied.'', readError = None\<rparr>),
      jsonDecode = (\<lambda>body. Inl ''invalid character'')\<rparr>"

definition netListable :: network where
  "netListable =
     \<lparr>httpHead = (\<lambda>url. HeadResponse 200),
      httpGet = (\<lambda>url. GetResponse 200 \<lparr>content = ''{items}'', readError = None\<rparr>),
      jsonDecode = (\<lambda>body. Inr \<lparr>Items = [\<lparr>Name = ''a.txt''\<rparr>, \<lparr>Name = ''b.txt''\<rparr>]\<rparr>)\<rparr>"

definition netDown :: network where
  "netDown =
     \<lparr>httpHead = (\<lambda>url. HeadError ''no route to host''),
      httpGet = (\<lambda>url. GetError ''no route to host''),
      jsonDecode = (\<lambda>body. Inl ''unexpected end of JSON input'')\<rparr>"

definition netBadListing :: "nat \<Rightarrow> network" where
  "netBadListing status =
     \<lparr>httpHead = (\<lambda>url. HeadResponse 200),
      httpGet = (\<lambda>url. GetResponse status \<lparr>content = ''<html>'', readError = None\<rparr>),
      jsonDecode = (\<lambda>body. Inl ''invalid character'')\<rparr>"

text \<open>
  Two schedules: a complete scan of two candidates under the limit 2 in which the two
  units take turns, and a complete scan of one candidate in which the main goroutine
  returns as soon as the wait group allows it.
\<close>

definition scheduleTwo :: "event list" where
  "scheduleTwo =
     [Spawn, Spawn, StartSink, Acquire 0, Acquire 1, Act 0, Act 1, Act 0, Act 1,
      Act 0, Act 0, Act 0, Act 0, Act 1, Act 1, Act 1, Act 1,
      Return 0, Return 1, Release 0, Release 1, Close, Exit]"

definition scheduleOne :: "event list" where
  "scheduleOne = [Spawn, StartSink, Acquire 0, Act 0, Act 0, Return 0, Close, Exit]"

section \<open>Setup of the scan\<close>

text \<open>
  The part of \<open>main\<close> before the scan, with \<open>ensureWordlist\<close>, \<open>downloadFile\<close> and
  \<open>readLinesFromFile\<close>. The file system and the library calls are parameters: the result
  of \<open>os.UserHomeDir\<close>; \<open>filepath.Join\<close> and \<open>filepath.Dir\<close>; whether \<open>os.Stat\<close> reports
  that a path does not exist; the error, if any, of \<open>os.MkdirAll\<close>, \<open>ioutil.WriteFile\<close>
  and \<open>os.Create\<close> on a path; for a path either the text of the error of opening or
  scanning it, or its lines; and the text that \<open>flag.Usage\<close> writes, which depends on the
  name of the program. Errors are the texts that \<open>%v\<close> prints.

  A function of the setup returns what it writes, one element per call, and either the
  reason of a fatal end (\<open>os.Exit(1)\<close>, or the early \<open>return\<close> of \<open>main\<close>) or its result.
  \<open>Printf\<close> and \<open>Println\<close> write to the standard output, \<open>flag.Usage\<close> to the standard
  error.
\<close>

record environment =
  userHomeDir :: "string + string"
  pathJoin :: "string \<Rightarrow> string \<Rightarrow> string"
  pathDir :: "string \<Rightarrow> string"
  statNotExist :: "string \<Rightarrow> bool"
  mkdirAll :: "string \<Rightarrow> string option"
  writeFile :: "string \<Rightarrow> string \<Rightarrow> string option"
  createFile :: "string \<Rightarrow> string option"
  readLines :: "string \<Rightarrow> string + string list"
  usageText :: string

record flags =
  flag_keyword :: string
  flag_wordlist :: string
  flag_outFile :: string
  flag_subprocesses :: int
  flag_verbose :: bool
  flag_keywordList :: string

datatype fatal =
  MissingInput | NoHomeDir | MkdirFailed | DownloadFailed | UnreadableFile
  | OutputFileUncreatable

datatype written = Stdout string | Stderr string

type_synonym 'a stage = "written list \<times> (fatal + 'a)"

definition andThen :: "'a stage \<Rightarrow> ('a \<Rightarrow> 'b stage) \<Rightarrow> 'b stage" where
  "andThen m f =
     (case m of
        (out, Inl e) \<Rightarrow> (out, Inl e)
      | (out, Inr x) \<Rightarrow> (case f x of (out', r) \<Rightarrow> (out @ out', r)))"

definition wordlistURL :: string where
  "wordlistURL =
     ''https://raw.githubusercontent.com/Vulnpire/gcpenum/refs/heads/main/utils/wordlist.txt''"

definition wordlistFilename :: string where
  "wordlistFilename = ''.config/gcpenum/words.txt''"

definition downloadFile :: "environment \<Rightarrow> network \<Rightarrow> string \<Rightarrow> string \<Rightarrow> string option" where
  "downloadFile env net url filePath =
     (case httpGet net url of
        GetError err \<Rightarrow> Some err
      | GetResponse status body \<Rightarrow>
          if status \<noteq> 200
          then Some (''failed to download file: '' @ url @ '' (status: '' @ digitsOf status @ '')'')
          else (case readError body of
                  Some err \<Rightarrow> Some err
                | None \<Rightarrow>
                    (case mkdirAll env (pathDir env filePath) of
                       Some err \<Rightarrow> Some err
                     | None \<Rightarrow> writeFile env filePath (content body))))"

definition ensureWordlist :: "environment \<Rightarrow> network \<Rightarrow> string stage" where
  "ensureWordlist env net =
     (case userHomeDir env of
        Inl err \<Rightarrow>
          ([Stdout (''ERROR: Unable to locate home directory: '' @ err @ ''\<newline>'')],
           Inl NoHomeDir)
      | Inr homeDir \<Rightarrow>
          (let wordlistPath = pathJoin env homeDir wordlistFilename in
           if statNotExist env wordlistPath then
             (let notice =
                    Stdout (''Wordlist not found. Downloading to '' @ wordlistPath @ ''...\<newline>'');
                  dir = pathDir env wordlistPath in
              case mkdirAll env dir of
                Some err \<Rightarrow>
                  ([notice,
                    Stdout (''ERROR: Could not create directory '' @ dir @ '': '' @ err @ ''\<newline>'')],
                   Inl MkdirFailed)
              | None \<Rightarrow>
                  (case downloadFile env net wordlistURL wordlistPath of
                     Some err \<Rightarrow>
                       ([notice,
                         Stdout (''ERROR: Failed to download wordlist: '' @ err @ ''\<newline>'')],
                        Inl DownloadFailed)
                   | None \<Rightarrow> ([notice], Inr wordlistPath)))
           else ([Stdout (''Using existing wordlist at '' @ wordlistPath @ ''\<newline>'')],
                 Inr wordlistPath)))"

definition readLinesFromFile :: "environment \<Rightarrow> string \<Rightarrow> string list stage" where
  "readLinesFromFile env filePath =
     (case readLines env filePath of
        Inl err \<Rightarrow>
          ([Stdout (''ERROR: Unable to read file: '' @ err @ ''\<newline>'')], Inl UnreadableFile)
      | Inr lines \<Rightarrow> ([], Inr lines))"

text \<open>
  \<open>generatePermutations\<close> as \<open>main\<close> calls it, with the path of the wordlist, and the loop
  of \<open>main\<close> over the keywords, which appends the candidates of each keyword.
\<close>

definition generatePermutationsFrom :: "environment \<Rightarrow> string \<Rightarrow> string \<Rightarrow> string list stage" where
  "generatePermutationsFrom env keyword wordlistPath =
     andThen (readLinesFromFile env wordlistPath)
       (\<lambda>suffixes. ([], Inr (generatePermutations keyword suffixes)))"

fun collectBuckets :: "environment \<Rightarrow> string \<Rightarrow> string list \<Rightarrow> string list \<Rightarrow> string list stage" where
  "collectBuckets env wordlistPath [] buckets = ([], Inr buckets)"
| "collectBuckets env wordlistPath (kw # kws) buckets =
     andThen (generatePermutationsFrom env kw wordlistPath)
       (\<lambda>found. collectBuckets env wordlistPath kws (buckets @ found))"

definition summaryLine :: "string list \<Rightarrow> string list \<Rightarrow> string" where
  "summaryLine buckets keywords =
     ''\<newline>Generated '' @ digitsOf (length buckets) @ '' bucket names from ''
     @ digitsOf (length keywords) @ '' keyword(s).\<newline>''"

text \<open>
  The steps of \<open>main\<close>, in its order: the test for a missing input (lines 201 to 205),
  \<open>resolveWordlist\<close> (lines 207 to 210), \<open>loadKeywords\<close> (lines 212 to 217) and the loop
  over the keywords (lines 219 to 222) make \<open>main_inputs\<close>; \<open>main_setup\<close> goes on with
  the summary and the output file, up to the creation of the channels, and returns the
  candidates to scan.
\<close>

definition missingInput :: "flags \<Rightarrow> bool" where
  "missingInput fl \<longleftrightarrow> flag_keyword fl = [] \<and> flag_keywordList fl = []"

definition resolveWordlist :: "environment \<Rightarrow> network \<Rightarrow> flags \<Rightarrow> string stage" where
  "resolveWordlist env net fl =
     (if flag_wordlist fl = [] then ensureWordlist env net
      else ([], Inr (flag_wordlist fl)))"

definition loadKeywords :: "environment \<Rightarrow> flags \<Rightarrow> string list stage" where
  "loadKeywords env fl =
     (if flag_keywordList fl \<noteq> [] then readLinesFromFile env (flag_keywordList fl)
      else if flag_keyword fl \<noteq> [] then ([], Inr [flag_keyword fl])
      else ([], Inr []))"

definition main_inputs :: "environment \<Rightarrow> network \<Rightarrow> flags \<Rightarrow> (string list \<times> string list) stage" where
  "main_inputs env net fl =
     (if missingInput fl
      then ([Stdout ''ERROR: Provide either a keyword (-n) or a keyword list file (-l)\<newline>'',
             Stderr (usageText env)],
            Inl MissingInput)
      else
        andThen (resolveWordlist env net fl)
          (\<lambda>wordlistPath.
             andThen (loadKeywords env fl)
               (\<lambda>keywords.
                  andThen (collectBuckets env wordlistPath keywords [])
                    (\<lambda>buckets. ([], Inr (keywords, buckets))))))"

definition openOutput :: "environment \<Rightarrow> flags \<Rightarrow> unit stage" where
  "openOutput env fl =
     (if flag_outFile fl \<noteq> []
      then (case createFile env (flag_outFile fl) of
              Some err \<Rightarrow>
                ([Stdout (''ERROR: Could not create output file: '' @ err @ ''\<newline>'')],
                 Inl OutputFileUncreatable)
            | None \<Rightarrow> ([], Inr ()))
      else ([], Inr ()))"

definition main_setup :: "environment \<Rightarrow> network \<Rightarrow> flags \<Rightarrow> string list stage" where
  "main_setup env net fl =
     andThen (main_inputs env net fl)
       (\<lambda>(keywords, buckets).
          andThen ([Stdout (summaryLine buckets keywords)], Inr ())
            (\<lambda>_. andThen (openOutput env fl) (\<lambda>_. ([], Inr buckets))))"

text \<open>
  \<open>main\<close> up to the first state of the scan: what it has written, and the state in which
  the scan starts, if it starts.
\<close>

definition main_start :: "environment \<Rightarrow> network \<Rightarrow> flags \<Rightarrow> written list \<times> scan option" where
  "main_start env net fl =
     (case main_setup env net fl of
        (out, Inl e) \<Rightarrow> (out, None)
      | (out, Inr buckets) \<Rightarrow> (out, Some (scan_init buckets)))"

fun isSummary :: "written \<Rightarrow> bool" where
  "isSummary (Stdout text) = hasPrefix text ''\<newline>Generated ''"
| "isSummary (Stderr text) = False"

fun isError :: "written \<Rightarrow> bool" where
  "isError (Stdout text) = hasPrefix text ''ERROR: ''"
| "isError (Stderr text) = False"

text \<open>
  A stage of the setup is quiet when it writes no summary and, if it ends the program,
  has written an error message, as the last thing unless the input is missing, and not
  for the output file.
\<close>

definition quiet :: "'a stage \<Rightarrow> bool" where
  "quiet m \<longleftrightarrow>
     (\<forall>chunk \<in> set (fst m). \<not> isSummary chunk)
     \<and> (\<forall>e. snd m = Inl e \<longrightarrow>
            (\<exists>chunk \<in> set (fst m). isError chunk)
            \<and> (e \<noteq> MissingInput \<longrightarrow> fst m \<noteq> [] \<and> isError (last (fst m)))
            \<and> e \<noteq> OutputFileUncreatable)"

text \<open>
  An environment in which the wordlist \<open>words.txt\<close> has one line and the file \<open>empty.txt\<close>
  none, no other file can be read, no file can be created and the home directory is
  unknown; and the flags \<open>-n acme -w words.txt -o out.txt\<close>.
\<close>

definition envReadOnly :: environment where
  "envReadOnly =
     \<lparr>userHomeDir = Inl ''$HOME is not defined'',
      pathJoin = (\<lambda>dir name. dir @ ''/'' @ name),
      pathDir = (\<lambda>path. ''.''),
      statNotExist = (\<lambda>path. True),
      mkdirAll = (\<lambda>path. Some ''permission denied''),
      writeFile = (\<lambda>path text. Some ''permission denied''),
      createFile = (\<lambda>path. Some ''permission denied''),
      readLines = (\<lambda>path. if path = ''words.txt'' then Inr [''dev'']
                          else if path = ''empty.txt'' then Inr []
                          else Inl ''no such file''),
      usageText = ''Usage of gcpenum:\<newline>''\<rparr>"

definition flagsAcme :: flags where
  "flagsAcme =
     \<lparr>flag_keyword = ''acme'', flag_wordlist = ''words.txt'', flag_outFile = ''out.txt'',
      flag_subprocesses = 10, flag_verbose = False, flag_keywordList = []\<rparr>"

text \<open>
  The lines of unit \<open>i\<close> form one group in a stream when the stream is a part without
  lines of \<open>i\<close>, then a part with lines of \<open>i\<close> only, then a part without lines of \<open>i\<close>.
  The invariant of a scan under a limit of at most 1: the lines of every unit form one
  group, a running unit has sent nothing yet or has sent the last line received, and a
  blocked unit has sent nothing.
\<close>

definition grouped :: "nat \<Rightarrow> (nat \<times> string) list \<Rightarrow> bool" where
  "grouped i rs \<longleftrightarrow>
     (\<exists>a b c. rs = a @ b @ c \<and> (\<forall>r \<in> set a. fst r \<noteq> i) \<and> (\<forall>r \<in> set b. fst r = i)
        \<and> (\<forall>r \<in> set c. fst r \<noteq> i))"

definition serial_inv :: "scan \<Rightarrow> bool" where
  "serial_inv s \<longleftrightarrow>
     (\<forall>i < length (units s).
        grouped i (received s)
        \<and> (\<forall>prog. units s ! i = Running prog \<longrightarrow>
              linesOf i (received s) = []
              \<or> (received s \<noteq> [] \<and> fst (last (received s)) = i))
        \<and> (\<forall>prog. units s ! i = Blocked prog \<longrightarrow> linesOf i (received s) = []))"

definition scheduleSerial :: "event list" where
  "scheduleSerial =
     [Spawn, Spawn, StartSink, Acquire 0, Act 0, Act 0, Act 0, Act 0, Act 0, Act 0, Return 0,
      Release 0, Acquire 1, Act 1, Act 1, Act 1, Act 1, Act 1, Act 1, Return 1, Release 1,
      Close, Exit]"

section \<open>Facts about the byte-string functions\<close>

lemma hasPrefix_iff_take: "hasPrefix s p \<longleftrightarrow> take (length p) s = p"
  by (induction s p rule: hasPrefix.induct) auto

lemma hasPrefix_append_self: "hasPrefix (p @ t) p"
  by (simp add: hasPrefix_iff_take)

lemma bytesContains_iff: "bytesContains s sub \<longleftrightarrow> (\<exists>p q. s = p @ sub @ q)"
proof (induction s)
  case Nil
  show ?case by (cases sub) auto
next
  case (Cons c cs)
  have pre: "hasPrefix (c # cs) sub \<longleftrightarrow> (\<exists>q. c # cs = sub @ q)"
    unfolding hasPrefix_iff_take by (metis append_eq_conv_conj append_take_drop_id)
  show ?case
  proof
    assume "bytesContains (c # cs) sub"
    then consider "hasPrefix (c # cs) sub" | "bytesContains cs sub" by auto
    then show "\<exists>p q. c # cs = p @ sub @ q"
    proof cases
      case 1
      then obtain q where "c # cs = sub @ q" using pre by blast
      then have "c # cs = [] @ sub @ q" by simp
      then show ?thesis by blast
    next
      case 2
      then obtain p q where "cs = p @ sub @ q" using Cons.IH by blast
      then have "c # cs = (c # p) @ sub @ q" by simp
      then show ?thesis by blast
    qed
  next
    assume "\<exists>p q. c # cs = p @ sub @ q"
    then obtain p q where pq: "c # cs = p @ sub @ q" by blast
    show "bytesContains (c # cs) sub"
    proof (cases p)
      case Nil
      then have "hasPrefix (c # cs) sub" using pq pre by auto
      then show ?thesis by simp
    next
      case (Cons a p')
      then have "cs = p' @ sub @ q" using pq by simp
      then have "bytesContains cs sub" using Cons.IH by blast
      then show ?thesis by simp
    qed
  qed
qed

lemma straddle:
  assumes "hasPrefix (x @ r) old" "\<not> hasPrefix x old" "x \<noteq> []"
  shows "r \<noteq> [] \<and> hd r \<in> set (tl old)"
proof -
  have t: "take (length old) (x @ r) = old" using assms(1) by (simp add: hasPrefix_iff_take)
  have lt: "length x < length old"
  proof (rule ccontr)
    assume "\<not> length x < length old"
    then have "take (length old) x = old" using t by simp
    then show False using assms(2) by (simp add: hasPrefix_iff_take)
  qed
  then have o: "old = x @ take (length old - length x) r" using t by simp
  obtain a x' where x: "x = a # x'" using assms(3) by (cases x) auto
  obtain b r' where r: "r = b # r'" using o lt by (cases r) auto
  obtain m where m: "length old - length x = Suc m" using lt by (cases "length old - length x") auto
  have "old = a # x' @ b # take m r'" using o x r m by simp
  then have "b \<in> set (tl old)" by simp
  then show ?thesis using r by simp
qed

text \<open>
  A text \<open>k\<close> without an occurrence of \<open>old\<close> is copied unchanged when what follows it
  cannot complete an occurrence that begins inside \<open>k\<close>.
\<close>

lemma replaceAll_skip:
  assumes "old \<noteq> []" "\<not> bytesContains k old" "r = [] \<or> hd r \<notin> set (tl old)"
  shows "replaceAll (k @ r) old new = k @ replaceAll r old new"
  using assms(2)
proof (induction k)
  case Nil
  show ?case by simp
next
  case (Cons c k')
  have np: "\<not> hasPrefix (c # k') old" and nc: "\<not> bytesContains k' old"
    using Cons.prems by auto
  have "\<not> hasPrefix ((c # k') @ r) old"
    using straddle [of "c # k'" r old] np assms(3) by blast
  then show ?case using Cons.IH nc assms(1) by simp
qed

lemma replaceAll_none:
  assumes "old \<noteq> []" "\<not> bytesContains k old"
  shows "replaceAll k old new = k"
  using replaceAll_skip [OF assms, of "[]" new] assms(1) by simp

section \<open>Facts about the name generator\<close>

lemma removeDuplicates_loop_eq:
  "removeDuplicates_loop xs seen res = res @ firstOccurrences (filter (\<lambda>v. v \<notin> seen) xs)"
proof (induction xs arbitrary: seen res)
  case Nil
  show ?case by simp
next
  case (Cons v vs)
  have f: "filter (\<lambda>y. y \<noteq> v) (filter (\<lambda>x. x \<notin> seen) vs) = filter (\<lambda>x. x \<notin> insert v seen) vs"
    by (induction vs) auto
  show ?case using Cons.IH f by simp
qed

lemma removeDuplicates_eq: "removeDuplicates xs = firstOccurrences xs"
  by (simp add: removeDuplicates_def removeDuplicates_loop_eq)

lemma set_firstOccurrences: "set (firstOccurrences xs) = set xs"
  by (induction xs rule: firstOccurrences.induct) auto

lemma distinct_firstOccurrences: "distinct (firstOccurrences xs)"
  by (induction xs rule: firstOccurrences.induct) (auto simp: set_firstOccurrences)

lemma expand_dash_ks: "noPlaceholder k \<Longrightarrow> expand k s ''{keyword}-{suffix}'' = k @ ''-'' @ s"
  unfolding expand_def noPlaceholder_def by (simp add: replaceAll_skip)

lemma expand_dash_sk: "noPlaceholder k \<Longrightarrow> expand k s ''{suffix}-{keyword}'' = s @ ''-'' @ k"
  unfolding expand_def noPlaceholder_def by (simp add: replaceAll_none)

lemma expand_under_ks: "noPlaceholder k \<Longrightarrow> expand k s ''{keyword}_{suffix}'' = k @ ''_'' @ s"
  unfolding expand_def noPlaceholder_def by (simp add: replaceAll_skip)

lemma expand_under_sk: "noPlaceholder k \<Longrightarrow> expand k s ''{suffix}_{keyword}'' = s @ ''_'' @ k"
  unfolding expand_def noPlaceholder_def by (simp add: replaceAll_none)

lemma expand_plain_ks: "noPlaceholder k \<Longrightarrow> expand k s ''{keyword}{suffix}'' = k @ s"
  unfolding expand_def noPlaceholder_def by (simp add: replaceAll_skip)

lemma expand_plain_sk: "noPlaceholder k \<Longrightarrow> expand k s ''{suffix}{keyword}'' = s @ k"
  unfolding expand_def noPlaceholder_def by (simp add: replaceAll_none)

lemma expand_permutations:
  "noPlaceholder k \<Longrightarrow> map (expand k s) permutations = templateExpansions k s"
  by (simp add: permutations_def templateExpansions_def expand_dash_ks expand_dash_sk
      expand_under_ks expand_under_sk expand_plain_ks expand_plain_sk)

lemma rawBuckets_templates:
  "noPlaceholder k \<Longrightarrow>
   rawBuckets k S = concat (map (templateExpansions k) S) @ keywordForms k"
  by (simp add: rawBuckets_def keywordForms_def expand_permutations)

text \<open>
  For a keyword free of the placeholder the generator is the first-occurrence
  deduplication of the template expansions over the suffixes followed by the
  keyword-only forms.
\<close>

lemma generatePermutations_templates:
  assumes "noPlaceholder k"
  shows "generatePermutations k S =
         firstOccurrences (concat (map (templateExpansions k) S) @ keywordForms k)"
    and "distinct (generatePermutations k S)"
    and "\<forall>e \<in> set (generatePermutations k S).
           (\<exists>s \<in> set S. e \<in> set (templateExpansions k s)) \<or> e \<in> set (keywordForms k)"
proof -
  show eq: "generatePermutations k S =
         firstOccurrences (concat (map (templateExpansions k) S) @ keywordForms k)"
    using assms by (simp add: generatePermutations_def removeDuplicates_eq rawBuckets_templates)
  show "distinct (generatePermutations k S)"
    by (simp add: generatePermutations_def removeDuplicates_eq distinct_firstOccurrences)
  show "\<forall>e \<in> set (generatePermutations k S).
           (\<exists>s \<in> set S. e \<in> set (templateExpansions k s)) \<or> e \<in> set (keywordForms k)"
    unfolding eq set_firstOccurrences by auto
qed

lemma templateExpansions_differ:
  "k1 \<noteq> k2 \<Longrightarrow>
   list_all2 (\<lambda>a b. a \<noteq> b) (templateExpansions k1 s) (templateExpansions k2 s)"
  by (simp add: templateExpansions_def)

lemma keywordForms_differ:
  "k1 \<noteq> k2 \<Longrightarrow> list_all2 (\<lambda>a b. a \<noteq> b) (keywordForms k1) (keywordForms k2)"
  by (simp add: keywordForms_def)

lemma concat_templates_differ:
  "k1 \<noteq> k2 \<Longrightarrow>
   list_all2 (\<lambda>a b. a \<noteq> b) (concat (map (templateExpansions k1) S))
     (concat (map (templateExpansions k2) S))"
proof (induction S)
  case Nil
  show ?case by simp
next
  case (Cons s S)
  show ?case
    using list_all2_appendI [OF templateExpansions_differ [OF Cons.prems, of s] Cons.IH [OF Cons.prems]]
    by simp
qed

section \<open>Claims about the name generator\<close>

text \<open>
  C5. The generator's output has no duplicates, and every entry should be one of the six
  template expansions of the keyword over a suffix of the list or one of the four
  keyword-only forms. The second half fails for a keyword that itself contains the text
  \<open>{suffix}\<close>: the second \<open>ReplaceAll\<close> rewrites the placeholder inside the keyword too.
  For the keyword \<open>{suffix}\<close> and the suffix list \<open>[a]\<close> the generator returns \<open>a-a\<close>,
  \<open>a_a\<close> and \<open>aa\<close>, none of which is a template expansion of \<open>{suffix}\<close> over \<open>a\<close> or a
  keyword-only form.
\<close>

theorem C5_placeholder_in_keyword:
  "generatePermutations ''{suffix}'' [''a''] =
     [''a-a'', ''a_a'', ''aa'', ''{suffix}'', ''{suffix}.com'', ''{suffix}.net'', ''{suffix}.org'']
   \<and> ''a-a'' \<notin> set (templateExpansions ''{suffix}'' ''a'' @ keywordForms ''{suffix}'')"
  by (simp add: generatePermutations_def removeDuplicates_def rawBuckets_def permutations_def
      expand_def templateExpansions_def keywordForms_def)

text \<open>
  C6. For a non-empty keyword and the empty suffix list the generator returns exactly
  the keyword, then the keyword with \<open>.com\<close>, \<open>.net\<close> and \<open>.org\<close> appended: four distinct
  names.
\<close>

theorem C6_empty_suffix_list:
  "k \<noteq> [] \<Longrightarrow>
   generatePermutations k [] = [k, k @ ''.com'', k @ ''.net'', k @ ''.org'']
   \<and> distinct (generatePermutations k [])
   \<and> length (generatePermutations k []) \<le> 4"
  by (simp add: generatePermutations_def removeDuplicates_def rawBuckets_def)

theorem C6_empty_suffix_list_witness:
  "''acme'' \<noteq> []
   \<and> generatePermutations ''acme'' [] = [''acme'', ''acme.com'', ''acme.net'', ''acme.org'']"
  using C6_empty_suffix_list [of "''acme''"] by simp

text \<open>
  C7, as stated: the candidate sets of two distinct keywords over the same suffix list
  are disjoint. They are not: with the suffixes \<open>a\<close> and \<open>b\<close>, the keyword \<open>a\<close> gives
  \<open>a-b\<close> from the template keyword-suffix, and the keyword \<open>b\<close> gives \<open>a-b\<close> from the
  template suffix-keyword.
\<close>

theorem C7_not_disjoint:
  "''a'' \<noteq> ''b''
   \<and> ''a-b'' \<in> set (generatePermutations ''a'' [''a'', ''b''])
   \<and> ''a-b'' \<in> set (generatePermutations ''b'' [''a'', ''b''])"
  by (simp add: generatePermutations_def removeDuplicates_def rawBuckets_def permutations_def
      expand_def)

text \<open>
  C7, amended: for two distinct keywords free of the placeholder and any suffix list, the
  candidate lists before deduplication have the same length and differ at every
  position: the same template over the same suffix, and the same keyword-only form,
  never give the same name for both keywords.
\<close>

theorem C7_same_slot_differs:
  assumes "k1 \<noteq> k2" "noPlaceholder k1" "noPlaceholder k2"
  shows "list_all2 (\<lambda>a b. a \<noteq> b) (rawBuckets k1 S) (rawBuckets k2 S)"
  unfolding rawBuckets_templates [OF assms(2)] rawBuckets_templates [OF assms(3)]
  by (rule list_all2_appendI [OF concat_templates_differ [OF assms(1)] keywordForms_differ [OF assms(1)]])

theorem C7_same_slot_differs_witness:
  "''a'' \<noteq> ''b'' \<and> noPlaceholder ''a'' \<and> noPlaceholder ''b''
   \<and> list_all2 (\<lambda>a b. a \<noteq> b) (rawBuckets ''a'' [''a'', ''b'']) (rawBuckets ''b'' [''a'', ''b''])"
proof -
  have h: "''a'' \<noteq> ''b''" "noPlaceholder ''a''" "noPlaceholder ''b''"
    by (simp_all add: noPlaceholder_def)
  show ?thesis using h C7_same_slot_differs [OF h, of "[''a'', ''b'']"] by simp
qed

section \<open>Facts about the scan\<close>

lemma filter_length_update:
  "i < length us \<Longrightarrow>
   length (filter P (us[i := u])) + (if P (us ! i) then 1 else 0)
   = length (filter P us) + (if P u then 1 else 0)"
proof (induction us arbitrary: i)
  case Nil
  then show ?case by simp
next
  case (Cons a us)
  show ?case
  proof (cases i)
    case 0
    then show ?thesis by simp
  next
    case (Suc j)
    then have "j < length us" using Cons.prems by simp
    from Cons.IH [OF this] show ?thesis using Suc by simp
  qed
qed

lemma sum_list_update:
  "i < length us \<Longrightarrow>
   sum_list (map f (us[i := u])) + f (us ! i) = sum_list (map f us) + (f u :: nat)"
proof (induction us arbitrary: i)
  case Nil
  then show ?case by simp
next
  case (Cons a us)
  show ?case
  proof (cases i)
    case 0
    then show ?thesis by simp
  next
    case (Suc j)
    then have "j < length us" using Cons.prems by simp
    from Cons.IH [OF this] show ?thesis using Suc by simp
  qed
qed

lemma unit_step_cases [consumes 1, case_names Acquire Send Request Return Release]:
  assumes "unit_step limit s e i u = Some s'"
  obtains
    (Acquire) j prog where "e = Acquire j" "u = Blocked prog" "sem s < limit"
      "s' = s\<lparr>units := (units s)[i := Running prog], sem := sem s + 1\<rparr>"
  | (Send) j line prog where "e = Act j" "u = Running (Send line # prog)" "mainPc s = Waiting"
      "s' = s\<lparr>units := (units s)[i := Running prog], received := received s @ [(i, line)]\<rparr>"
  | (Request) j a prog where "e = Act j" "u = Running (a # prog)" "\<forall>line. a \<noteq> Send line"
      "s' = s\<lparr>units := (units s)[i := Running prog], issued := issued s @ [(i, a)]\<rparr>"
  | (Return) j where "e = Return j" "u = Running []" "0 < wg s"
      "s' = s\<lparr>units := (units s)[i := Returned], wg := wg s - 1\<rparr>"
  | (Release) j where "e = Release j" "u = Returned" "0 < sem s"
      "s' = s\<lparr>units := (units s)[i := Finished], sem := sem s - 1\<rparr>"
proof (cases "(limit, s, e, i, u)" rule: unit_step.cases)
  case (1 limit' s0 j i0 prog)
  then show ?thesis using assms Acquire by (auto split: if_splits)
next
  case (2 limit' s0 j i0 a prog)
  then show ?thesis using assms Send Request by (cases a) (auto split: if_splits)
next
  case (3 limit' s0 j i0)
  then show ?thesis using assms Return by (auto split: if_splits)
next
  case (4 limit' s0 j i0)
  then show ?thesis using assms Release by (auto split: if_splits)
qed (use assms in auto)

lemma step_cases [consumes 1, case_names Spawn StartSink Close Exit Acquire Send Request Return Release]:
  assumes "step net verbose limit s e = Some s'"
  obtains
    (Spawn) bucket rest where "e = Spawn" "mainPc s = Spawning (bucket # rest)"
      "s' = s\<lparr>mainPc := Spawning rest,
               units := units s @ [Blocked (checkBucket net bucket verbose)],
               wg := wg s + 1\<rparr>"
  | (StartSink) "e = StartSink" "mainPc s = Spawning []" "s' = s\<lparr>mainPc := Waiting\<rparr>"
  | (Close) "e = Close" "mainPc s = Waiting" "wg s = 0" "s' = s\<lparr>mainPc := Closed\<rparr>"
  | (Exit) "e = Exit" "mainPc s = Closed" "s' = s\<lparr>mainPc := Exited\<rparr>"
  | (Acquire) i prog where "e = Acquire i" "mainPc s \<noteq> Exited" "i < length (units s)"
      "units s ! i = Blocked prog" "sem s < limit"
      "s' = s\<lparr>units := (units s)[i := Running prog], sem := sem s + 1\<rparr>"
  | (Send) i line prog where "e = Act i" "mainPc s = Waiting" "i < length (units s)"
      "units s ! i = Running (Send line # prog)"
      "s' = s\<lparr>units := (units s)[i := Running prog], received := received s @ [(i, line)]\<rparr>"
  | (Request) i a prog where "e = Act i" "mainPc s \<noteq> Exited" "i < length (units s)"
      "units s ! i = Running (a # prog)" "\<forall>line. a \<noteq> Send line"
      "s' = s\<lparr>units := (units s)[i := Running prog], issued := issued s @ [(i, a)]\<rparr>"
  | (Return) i where "e = Return i" "mainPc s \<noteq> Exited" "i < length (units s)"
      "units s ! i = Running []" "0 < wg s"
      "s' = s\<lparr>units := (units s)[i := Returned], wg := wg s - 1\<rparr>"
  | (Release) i where "e = Release i" "mainPc s \<noteq> Exited" "i < length (units s)"
      "units s ! i = Returned" "0 < sem s"
      "s' = s\<lparr>units := (units s)[i := Finished], sem := sem s - 1\<rparr>"
proof (cases "eventUnit e")
  case None
  then have "e = Spawn \<or> e = StartSink \<or> e = Close \<or> e = Exit" by (cases e) auto
  then show ?thesis
    using assms None Spawn StartSink Close Exit
    by (auto simp: step_def split: main_state.splits list.splits if_splits)
next
  case (Some i)
  then have g: "mainPc s \<noteq> Exited" "i < length (units s)"
    and u: "unit_step limit s e i (units s ! i) = Some s'"
    using assms by (auto simp: step_def split: if_splits)
  from u show ?thesis
  proof (cases rule: unit_step_cases)
    case (Acquire j prog)
    then show ?thesis using Some g that(5) by auto
  next
    case (Send j line prog)
    then show ?thesis using Some g that(6) by auto
  next
    case (Request j a prog)
    then show ?thesis using Some g that(7) by auto
  next
    case (Return j)
    then show ?thesis using Some g that(8) by auto
  next
    case (Release j)
    then show ?thesis using Some g that(9) by auto
  qed
qed


lemma sem_step:
  assumes "sem s = permits s" "sem s \<le> limit" "step net verbose limit s e = Some s'"
  shows "sem s' = permits s' \<and> sem s' \<le> limit"
  using assms(3)
proof (cases rule: step_cases)
  case (Acquire i prog)
  then show ?thesis
    using assms(1,2) filter_length_update [of i "units s" holdsPermit "Running prog"]
    by (simp add: permits_def)
next
  case (Send i line prog)
  then show ?thesis
    using assms(1,2) filter_length_update [of i "units s" holdsPermit "Running prog"]
    by (simp add: permits_def)
next
  case (Request i a prog)
  then show ?thesis
    using assms(1,2) filter_length_update [of i "units s" holdsPermit "Running prog"]
    by (simp add: permits_def)
next
  case (Return i)
  then show ?thesis
    using assms(1,2) filter_length_update [of i "units s" holdsPermit Returned]
    by (simp add: permits_def)
next
  case (Release i)
  have "length (filter holdsPermit ((units s)[i := Finished])) + 1 = length (filter holdsPermit (units s))"
    using Release filter_length_update [of i "units s" holdsPermit Finished] by simp
  then have "permits s' + 1 = permits s" using Release by (simp add: permits_def)
  moreover have "sem s' = sem s - 1" using Release by simp
  ultimately show ?thesis using assms(1,2) Release(5) by arith
qed (use assms(1,2) in \<open>simp_all add: permits_def\<close>)

lemma wg_step:
  assumes "wg s = length (filter awaited (units s))" "step net verbose limit s e = Some s'"
  shows "wg s' = length (filter awaited (units s'))"
  using assms(2)
proof (cases rule: step_cases)
  case (Acquire i prog)
  then show ?thesis
    using assms(1) filter_length_update [of i "units s" awaited "Running prog"] by simp
next
  case (Send i line prog)
  then show ?thesis
    using assms(1) filter_length_update [of i "units s" awaited "Running prog"] by simp
next
  case (Request i a prog)
  then show ?thesis
    using assms(1) filter_length_update [of i "units s" awaited "Running prog"] by simp
next
  case (Return i)
  have "length (filter awaited ((units s)[i := Returned])) + 1 = length (filter awaited (units s))"
    using Return filter_length_update [of i "units s" awaited Returned] by simp
  moreover have "wg s' = wg s - 1" "units s' = (units s)[i := Returned]" using Return by simp_all
  ultimately show ?thesis using assms(1) Return(5) by arith
next
  case (Release i)
  then show ?thesis
    using assms(1) filter_length_update [of i "units s" awaited Finished] by simp
qed (use assms(1) in simp_all)

lemma spawned_step:
  assumes "length (units s) \<le> length buckets"
    "unspawned (mainPc s) = drop (length (units s)) buckets"
    "step net verbose limit s e = Some s'"
  shows "length (units s') \<le> length buckets
       \<and> unspawned (mainPc s') = drop (length (units s')) buckets"
  using assms(3)
proof (cases rule: step_cases)
  case (Spawn bucket rest)
  then have d: "drop (length (units s)) buckets = bucket # rest" using assms(2) by simp
  then have "length (units s) < length buckets"
    by (metis drop_all list.distinct(1) not_le)
  moreover have "drop (Suc (length (units s))) buckets = rest"
    using d by (metis drop_Suc list.sel(3) tl_drop)
  ultimately show ?thesis using Spawn by simp
next
  case StartSink
  then show ?thesis using assms(1,2) by simp
next
  case Close
  then show ?thesis using assms(1,2) by simp
next
  case Exit
  then show ?thesis using assms(1,2) by simp
qed (use assms(1,2) in simp_all)

lemma closed_step:
  assumes "mainPc s = Closed \<or> mainPc s = Exited \<longrightarrow> wg s = 0"
    "step net verbose limit s e = Some s'"
  shows "mainPc s' = Closed \<or> mainPc s' = Exited \<longrightarrow> wg s' = 0"
  using assms(2)
  by (cases rule: step_cases) (use assms(1) in auto)

lemma issued_step:
  assumes "\<forall>r \<in> set (issued s). fst r < length (units s) \<and> acquired (units s ! fst r)"
    "step net verbose limit s e = Some s'"
  shows "\<forall>r \<in> set (issued s'). fst r < length (units s') \<and> acquired (units s' ! fst r)"
  using assms(2)
proof (cases rule: step_cases)
  case (Spawn bucket rest)
  then show ?thesis using assms(1) by (auto simp: nth_append)
qed (use assms(1) in \<open>auto simp: nth_list_update\<close>)

lemma linesOf_snoc:
  "linesOf i (rs @ [(j, l)]) = (if i = j then linesOf i rs @ [l] else linesOf i rs)"
  by (simp add: linesOf_def)

lemma linesOf_none: "\<forall>r \<in> set rs. fst r < n \<Longrightarrow> linesOf n rs = []"
  by (induction rs) (auto simp: linesOf_def)

lemma sent_request: "\<forall>line. a \<noteq> Send line \<Longrightarrow> sent (a # prog) = sent prog"
  by (cases a) auto

lemma lines_step:
  assumes un: "unspawned (mainPc s) = drop (length (units s)) buckets"
    and idx: "\<forall>r \<in> set (received s). fst r < length (units s)"
    and lines: "\<forall>i < length (units s).
           linesOf i (received s) @ sent (remaining (units s ! i))
           = sent (checkBucket net (buckets ! i) verbose)"
    and st: "step net verbose limit s e = Some s'"
  shows "(\<forall>r \<in> set (received s'). fst r < length (units s'))
       \<and> (\<forall>i < length (units s').
           linesOf i (received s') @ sent (remaining (units s' ! i))
           = sent (checkBucket net (buckets ! i) verbose))"
  using st
proof (cases rule: step_cases)
  case (Spawn bucket rest)
  then have d: "drop (length (units s)) buckets = bucket # rest" using un by simp
  then have b: "buckets ! length (units s) = bucket"
    by (metis nth_via_drop)
  have n: "linesOf (length (units s)) (received s) = []" using idx by (rule linesOf_none)
  have "\<forall>i < Suc (length (units s)).
           linesOf i (received s) @ sent (remaining ((units s @ [Blocked (checkBucket net bucket verbose)]) ! i))
           = sent (checkBucket net (buckets ! i) verbose)"
  proof (intro allI impI)
    fix i assume "i < Suc (length (units s))"
    then consider "i < length (units s)" | "i = length (units s)" by linarith
    then show "linesOf i (received s) @ sent (remaining ((units s @ [Blocked (checkBucket net bucket verbose)]) ! i))
           = sent (checkBucket net (buckets ! i) verbose)"
    proof cases
      case 1
      then show ?thesis using lines by (simp add: nth_append)
    next
      case 2
      then show ?thesis using n b by simp
    qed
  qed
  then show ?thesis using Spawn idx by auto
next
  case StartSink
  then show ?thesis using idx lines by simp
next
  case Close
  then show ?thesis using idx lines by simp
next
  case Exit
  then show ?thesis using idx lines by simp
next
  case (Acquire i prog)
  then show ?thesis using idx lines by (auto simp: nth_list_update)
next
  case (Send i line prog)
  have "linesOf i (received s) @ sent (remaining (units s ! i)) = sent (checkBucket net (buckets ! i) verbose)"
    using lines Send(3) by blast
  then have "linesOf i (received s) @ line # sent prog = sent (checkBucket net (buckets ! i) verbose)"
    using Send(4) by simp
  then show ?thesis using Send idx lines by (auto simp: nth_list_update linesOf_snoc)
next
  case (Request i a prog)
  have "linesOf i (received s) @ sent (remaining (units s ! i)) = sent (checkBucket net (buckets ! i) verbose)"
    using lines Request(3) by blast
  then have "linesOf i (received s) @ sent prog = sent (checkBucket net (buckets ! i) verbose)"
    using Request(4,5) by (simp add: sent_request)
  then show ?thesis using Request idx lines by (auto simp: nth_list_update)
next
  case (Return i)
  have "linesOf i (received s) @ sent (remaining (units s ! i)) = sent (checkBucket net (buckets ! i) verbose)"
    using lines Return(3) by blast
  then have "linesOf i (received s) = sent (checkBucket net (buckets ! i) verbose)"
    using Return(4) by simp
  then show ?thesis using Return idx lines by (auto simp: nth_list_update)
next
  case (Release i)
  have "linesOf i (received s) @ sent (remaining (units s ! i)) = sent (checkBucket net (buckets ! i) verbose)"
    using lines Release(3) by blast
  then have "linesOf i (received s) = sent (checkBucket net (buckets ! i) verbose)"
    using Release(4) by simp
  then show ?thesis using Release idx lines by (auto simp: nth_list_update)
qed

lemma scan_inv_init: "scan_inv net verbose limit buckets (scan_init buckets)"
  by (simp add: scan_inv_def scan_init_def permits_def)

lemma scan_inv_step:
  assumes "scan_inv net verbose limit buckets s" "step net verbose limit s e = Some s'"
  shows "scan_inv net verbose limit buckets s'"
proof -
  have i: "sem s = permits s" "sem s \<le> limit" "wg s = length (filter awaited (units s))"
    "length (units s) \<le> length buckets"
    "unspawned (mainPc s) = drop (length (units s)) buckets"
    "\<forall>r \<in> set (received s). fst r < length (units s)"
    "\<forall>i < length (units s).
           linesOf i (received s) @ sent (remaining (units s ! i))
           = sent (checkBucket net (buckets ! i) verbose)"
    "\<forall>r \<in> set (issued s). fst r < length (units s) \<and> acquired (units s ! fst r)"
    "mainPc s = Closed \<or> mainPc s = Exited \<longrightarrow> wg s = 0"
    using assms(1) unfolding scan_inv_def by blast+
  note a = sem_step [OF i(1,2) assms(2)]
  note b = wg_step [OF i(3) assms(2)]
  note c = spawned_step [OF i(4,5) assms(2)]
  note d = lines_step [OF i(5,6,7) assms(2)]
  note e = issued_step [OF i(8) assms(2)]
  note f = closed_step [OF i(9) assms(2)]
  show ?thesis unfolding scan_inv_def using a b c d e f by blast
qed

lemma scan_inv_run:
  "scan_inv net verbose limit buckets s \<Longrightarrow> run net verbose limit s es = Some s'
   \<Longrightarrow> scan_inv net verbose limit buckets s'"
proof (induction es arbitrary: s)
  case Nil
  then show ?case by simp
next
  case (Cons e es)
  then obtain t where t: "step net verbose limit s e = Some t" "run net verbose limit t es = Some s'"
    by (auto split: option.splits)
  show ?case using Cons.IH [OF scan_inv_step [OF Cons.prems(1) t(1)] t(2)] .
qed

lemma budget_step:
  assumes "step net verbose limit s e = Some s'"
  shows "budget net verbose s = Suc (budget net verbose s')"
  using assms
proof (cases rule: step_cases)
  case (Acquire i prog)
  then show ?thesis
    using sum_list_update [of i "units s" unitBudget "Running prog"] by (simp add: budget_def)
next
  case (Send i line prog)
  then show ?thesis
    using sum_list_update [of i "units s" unitBudget "Running prog"] by (simp add: budget_def)
next
  case (Request i a prog)
  then show ?thesis
    using sum_list_update [of i "units s" unitBudget "Running prog"] by (simp add: budget_def)
next
  case (Return i)
  then show ?thesis
    using sum_list_update [of i "units s" unitBudget Returned] by (simp add: budget_def)
next
  case (Release i)
  then show ?thesis
    using sum_list_update [of i "units s" unitBudget Finished] by (simp add: budget_def)
qed (simp_all add: budget_def)

lemma budget_run:
  "run net verbose limit s es = Some s' \<Longrightarrow>
   budget net verbose s = budget net verbose s' + length es"
proof (induction es arbitrary: s)
  case Nil
  then show ?case by simp
next
  case (Cons e es)
  then obtain t where t: "step net verbose limit s e = Some t" "run net verbose limit t es = Some s'"
    by (auto split: option.splits)
  show ?case using Cons.IH [OF t(2)] budget_step [OF t(1)] by simp
qed

lemma filter_nonempty_nth:
  "0 < length (filter P us) \<Longrightarrow> \<exists>i < length us. P (us ! i)"
  by (metis filter_False in_set_conv_nth length_greater_0_conv)

lemma running_enabled:
  assumes "i < length (units s)" "units s ! i = Running prog" "mainPc s = Waiting" "0 < wg s"
  shows "\<exists>e. step net verbose limit s e \<noteq> None"
proof (cases prog)
  case Nil
  then have "step net verbose limit s (Return i) \<noteq> None"
    using assms by (simp add: step_def)
  then show ?thesis by blast
next
  case (Cons a p)
  then have "step net verbose limit s (Act i) \<noteq> None"
    using assms by (cases a) (simp_all add: step_def)
  then show ?thesis by blast
qed

lemma release_enabled:
  assumes "scan_inv net verbose limit buckets s" "i < length (units s)"
    "units s ! i = Returned" "mainPc s \<noteq> Exited"
  shows "step net verbose limit s (Release i) \<noteq> None"
proof -
  have "holdsPermit (units s ! i)" using assms(3) by simp
  then have "units s ! i \<in> set (filter holdsPermit (units s))" using assms(2) by simp
  then have "0 < length (filter holdsPermit (units s))" by (metis length_pos_if_in_set)
  then have "0 < sem s" using assms(1) by (simp add: scan_inv_def permits_def)
  then show ?thesis using assms(2,3,4) by (simp add: step_def)
qed

lemma progress:
  assumes inv: "scan_inv net verbose limit buckets s" and lim: "1 \<le> limit"
    and live: "mainPc s \<noteq> Exited"
  shows "\<exists>e. step net verbose limit s e \<noteq> None"
proof (cases "mainPc s")
  case (Spawning rest)
  show ?thesis
  proof (cases rest)
    case Nil
    then have "step net verbose limit s StartSink \<noteq> None" using Spawning by (simp add: step_def)
    then show ?thesis by blast
  next
    case (Cons b r)
    then have "step net verbose limit s Spawn \<noteq> None" using Spawning by (simp add: step_def)
    then show ?thesis by blast
  qed
next
  case Closed
  then have "step net verbose limit s Exit \<noteq> None" by (simp add: step_def)
  then show ?thesis by blast
next
  case Exited
  then show ?thesis using live by simp
next
  case Waiting
  show ?thesis
  proof (cases "wg s = 0")
    case True
    then have "step net verbose limit s Close \<noteq> None" using Waiting by (simp add: step_def)
    then show ?thesis by blast
  next
    case False
    then have wgpos: "0 < wg s" by simp
    then have "0 < length (filter awaited (units s))" using inv by (simp add: scan_inv_def)
    from filter_nonempty_nth [OF this]
    obtain i where i: "i < length (units s)" "awaited (units s ! i)" by auto
    show ?thesis
    proof (cases "\<exists>j < length (units s). \<exists>prog. units s ! j = Running prog")
      case True
      then obtain j prog where j: "j < length (units s)" "units s ! j = Running prog" by auto
      show ?thesis by (rule running_enabled [OF j Waiting wgpos])
    next
      case norun: False
      then obtain prog where b: "units s ! i = Blocked prog"
        using i by (cases "units s ! i") auto
      show ?thesis
      proof (cases "sem s < limit")
        case True
        then have "step net verbose limit s (Acquire i) \<noteq> None"
          using i(1) b Waiting by (simp add: step_def)
        then show ?thesis by blast
      next
        case False
        then have "0 < sem s" using lim by simp
        then have "0 < length (filter holdsPermit (units s))"
          using inv by (simp add: scan_inv_def permits_def)
        from filter_nonempty_nth [OF this]
        obtain j where j: "j < length (units s)" "holdsPermit (units s ! j)" by auto
        then have "units s ! j = Returned" using norun by (cases "units s ! j") auto
        then have "step net verbose limit s (Release j) \<noteq> None"
          using release_enabled [OF inv j(1)] Waiting by simp
        then show ?thesis by blast
      qed
    qed
  qed
qed

lemma scan_inv_lines:
  assumes "scan_inv net verbose limit buckets s" "i < length (units s)"
  shows "linesOf i (received s) @ sent (remaining (units s ! i))
         = sent (checkBucket net (buckets ! i) verbose)"
proof -
  have "\<forall>i < length (units s).
           linesOf i (received s) @ sent (remaining (units s ! i))
           = sent (checkBucket net (buckets ! i) verbose)"
    using assms(1) unfolding scan_inv_def by (elim conjE)
  then show ?thesis using assms(2) by simp
qed

lemma closed_units:
  assumes inv: "scan_inv net verbose limit buckets s"
    and c: "mainPc s = Closed \<or> mainPc s = Exited"
  shows "length (units s) = length buckets"
    and "\<forall>u \<in> set (units s). u = Returned \<or> u = Finished"
    and "\<forall>i < length buckets. linesOf i (received s) = sent (checkBucket net (buckets ! i) verbose)"
proof -
  have u: "unspawned (mainPc s) = drop (length (units s)) buckets"
    and le: "length (units s) \<le> length buckets"
    and w: "wg s = length (filter awaited (units s))"
    and z: "wg s = 0"
    using inv c unfolding scan_inv_def by blast+
  have "drop (length (units s)) buckets = []" using u c by auto
  then show len: "length (units s) = length buckets" using le by simp
  have "filter awaited (units s) = []" using w z by simp
  then have na: "\<forall>u \<in> set (units s). \<not> awaited u" by (simp add: filter_empty_conv)
  show fin: "\<forall>u \<in> set (units s). u = Returned \<or> u = Finished"
  proof
    fix u assume "u \<in> set (units s)"
    then have "\<not> awaited u" using na by blast
    then show "u = Returned \<or> u = Finished" by (cases u) auto
  qed
  show "\<forall>i < length buckets. linesOf i (received s) = sent (checkBucket net (buckets ! i) verbose)"
  proof (intro allI impI)
    fix i assume i: "i < length buckets"
    then have "units s ! i = Returned \<or> units s ! i = Finished" using fin len by simp
    then have "sent (remaining (units s ! i)) = []" by auto
    moreover have "linesOf i (received s) @ sent (remaining (units s ! i))
        = sent (checkBucket net (buckets ! i) verbose)"
      using scan_inv_lines [OF inv] i len by simp
    ultimately show "linesOf i (received s) = sent (checkBucket net (buckets ! i) verbose)" by simp
  qed
qed

lemma frame_step:
  assumes "step net verbose limit s e = Some s'" "eventUnit e = Some i" "j \<noteq> i"
  shows "units s' ! j = units s ! j \<and> mainPc s' = mainPc s
       \<and> linesOf j (received s') = linesOf j (received s)"
  using assms(1)
proof (cases rule: step_cases)
  case (Spawn bucket rest)
  then show ?thesis using assms(2) by simp
next
  case StartSink
  then show ?thesis using assms(2) by simp
next
  case Close
  then show ?thesis using assms(2) by simp
next
  case Exit
  then show ?thesis using assms(2) by simp
next
  case (Acquire k prog)
  then show ?thesis using assms(2,3) by simp
next
  case (Send k line prog)
  then show ?thesis using assms(2,3) by (simp add: linesOf_snoc)
next
  case (Request k a prog)
  then show ?thesis using assms(2,3) by simp
next
  case (Return k)
  then show ?thesis using assms(2,3) by simp
next
  case (Release k)
  then show ?thesis using assms(2,3) by simp
qed

section \<open>Facts about a scan under the limit 1\<close>

lemma grouped_contiguous:
  assumes "grouped i rs"
  shows "contiguous i rs"
proof -
  obtain a b c where rs: "rs = a @ b @ c" and a: "\<forall>r \<in> set a. fst r \<noteq> i"
    and b: "\<forall>r \<in> set b. fst r = i" and c: "\<forall>r \<in> set c. fst r \<noteq> i"
    using assms unfolding grouped_def by blast
  have d1: "dropWhile (\<lambda>r. fst r \<noteq> i) rs = dropWhile (\<lambda>r. fst r \<noteq> i) (b @ c)"
    unfolding rs using a by (simp add: dropWhile_append2)
  have fc: "filter (\<lambda>r. fst r = i) c = []" using c by (simp add: filter_empty_conv)
  show ?thesis
  proof (cases b)
    case Nil
    then have "dropWhile (\<lambda>r. fst r \<noteq> i) rs = []" using d1 c by simp
    then show ?thesis unfolding contiguous_def by (simp only: dropWhile.simps filter.simps)
  next
    case (Cons x b')
    then have "fst x = i" using b by simp
    then have "dropWhile (\<lambda>r. fst r \<noteq> i) rs = b @ c" using d1 Cons by simp
    moreover have "dropWhile (\<lambda>r. fst r = i) (b @ c) = dropWhile (\<lambda>r. fst r = i) c"
      using b by (simp add: dropWhile_append2)
    moreover have "filter (\<lambda>r. fst r = i) (dropWhile (\<lambda>r. fst r = i) c) = []"
      using c by (auto simp: filter_empty_conv dest: set_dropWhileD)
    ultimately show ?thesis unfolding contiguous_def by (simp only:)
  qed
qed

lemma linesOf_empty_iff: "linesOf i rs = [] \<longleftrightarrow> (\<forall>r \<in> set rs. fst r \<noteq> i)"
  by (auto simp: linesOf_def filter_empty_conv)

lemma grouped_none: "linesOf i rs = [] \<Longrightarrow> grouped i rs"
  unfolding grouped_def linesOf_empty_iff
  by (rule exI [of _ rs], rule exI [of _ "[]"], rule exI [of _ "[]"]) simp

lemma grouped_other: 
  assumes "grouped j rs" "i \<noteq> j"
  shows "grouped j (rs @ [(i, l)])"
proof -
  obtain a b c where rs: "rs = a @ b @ c" and a: "\<forall>r \<in> set a. fst r \<noteq> j"
    and b: "\<forall>r \<in> set b. fst r = j" and c: "\<forall>r \<in> set c. fst r \<noteq> j"
    using assms(1) unfolding grouped_def by blast
  have "rs @ [(i, l)] = a @ b @ (c @ [(i, l)])" using rs by simp
  moreover have "\<forall>r \<in> set (c @ [(i, l)]). fst r \<noteq> j" using c assms(2) by auto
  ultimately show ?thesis unfolding grouped_def using a b by blast
qed

lemma grouped_same:
  assumes "grouped i rs" "linesOf i rs = [] \<or> (rs \<noteq> [] \<and> fst (last rs) = i)"
  shows "grouped i (rs @ [(i, l)])"
proof (cases "linesOf i rs = []")
  case True
  then have "\<forall>r \<in> set rs. fst r \<noteq> i" by (simp add: linesOf_empty_iff)
  moreover have "rs @ [(i, l)] = rs @ [(i, l)] @ []" by simp
  ultimately show ?thesis unfolding grouped_def
    by (intro exI [of _ rs] exI [of _ "[(i, l)]"] exI [of _ "[]"]) simp
next
  case False
  then have l: "rs \<noteq> []" "fst (last rs) = i" using assms(2) by auto
  obtain a b c where rs: "rs = a @ b @ c" and a: "\<forall>r \<in> set a. fst r \<noteq> i"
    and b: "\<forall>r \<in> set b. fst r = i" and c: "\<forall>r \<in> set c. fst r \<noteq> i"
    using assms(1) unfolding grouped_def by blast
  have "c = []"
  proof (rule ccontr)
    assume ne: "c \<noteq> []"
    then have "last rs = last c" using rs by simp
    moreover have "last c \<in> set c" using ne by simp
    ultimately show False using c l(2) by auto
  qed
  then have "rs @ [(i, l)] = a @ (b @ [(i, l)]) @ []" using rs by simp
  moreover have "\<forall>r \<in> set (b @ [(i, l)]). fst r = i" using b by auto
  ultimately show ?thesis unfolding grouped_def using a
    by (intro exI [of _ a] exI [of _ "b @ [(i, l)]"] exI [of _ "[]"]) simp
qed

lemma two_holders:
  assumes "i < length us" "j < length us" "i \<noteq> j" "P (us ! i)" "P (us ! j)" "\<not> P u"
  shows "2 \<le> length (filter P us)"
proof -
  have "length (filter P (us[i := u])) + 1 = length (filter P us)"
    using filter_length_update [OF assms(1), of P u] assms(4,6) by simp
  moreover have "(us[i := u]) ! j \<in> set (us[i := u])"
    using assms(2) by (intro nth_mem) simp
  then have "(us[i := u]) ! j \<in> set (filter P (us[i := u]))"
    using assms(3,5) by simp
  then have "0 < length (filter P (us[i := u]))" by (metis length_pos_if_in_set)
  ultimately show ?thesis by arith
qed

lemma serial_invD:
  assumes "serial_inv s" "i < length (units s)"
  shows "grouped i (received s)"
    and "units s ! i = Running prog \<Longrightarrow>
           linesOf i (received s) = [] \<or> (received s \<noteq> [] \<and> fst (last (received s)) = i)"
    and "units s ! i = Blocked prog \<Longrightarrow> linesOf i (received s) = []"
  using assms unfolding serial_inv_def by blast+

lemma serial_update:
  assumes j: "serial_inv s" and i: "i < length (units s)"
    and r: "received s' = received s" and u: "units s' = (units s)[i := u]"
    and run: "\<forall>prog. u = Running prog \<longrightarrow>
           linesOf i (received s) = [] \<or> (received s \<noteq> [] \<and> fst (last (received s)) = i)"
    and nb: "\<forall>prog. u \<noteq> Blocked prog"
  shows "serial_inv s'"
  unfolding serial_inv_def
proof (intro allI impI)
  fix k assume k: "k < length (units s')"
  then have k': "k < length (units s)" using u by simp
  show "grouped k (received s')
        \<and> (\<forall>prog. units s' ! k = Running prog \<longrightarrow>
              linesOf k (received s') = []
              \<or> (received s' \<noteq> [] \<and> fst (last (received s')) = k))
        \<and> (\<forall>prog. units s' ! k = Blocked prog \<longrightarrow> linesOf k (received s') = [])"
  proof (cases "k = i")
    case True
    then have "units s' ! k = u" using u i by simp
    then show ?thesis using True r run nb serial_invD(1) [OF j i] by simp
  next
    case False
    then have "units s' ! k = units s ! k" using u by simp
    then show ?thesis using r serial_invD [OF j k'] by simp
  qed
qed

lemma serial_step:
  assumes inv: "scan_inv net verbose limit buckets s" and lim: "limit \<le> 1"
    and j: "serial_inv s" and st: "step net verbose limit s e = Some s'"
  shows "serial_inv s'"
  using st
proof (cases rule: step_cases)
  case (Spawn bucket rest)
  have idx: "\<forall>r \<in> set (received s). fst r < length (units s)"
    using inv unfolding scan_inv_def by blast
  have n: "linesOf (length (units s)) (received s) = []" using idx by (rule linesOf_none)
  show ?thesis unfolding serial_inv_def
  proof (intro allI impI)
    fix k assume "k < length (units s')"
    then have "k < Suc (length (units s))" using Spawn by simp
    then consider "k < length (units s)" | "k = length (units s)" by linarith
    then show "grouped k (received s')
        \<and> (\<forall>prog. units s' ! k = Running prog \<longrightarrow>
              linesOf k (received s') = []
              \<or> (received s' \<noteq> [] \<and> fst (last (received s')) = k))
        \<and> (\<forall>prog. units s' ! k = Blocked prog \<longrightarrow> linesOf k (received s') = [])"
    proof cases
      case 1
      then show ?thesis using Spawn serial_invD [OF j 1] by (simp add: nth_append)
    next
      case 2
      then show ?thesis using Spawn n grouped_none [OF n] by simp
    qed
  qed
next
  case StartSink
  then show ?thesis using j by (simp add: serial_inv_def)
next
  case Close
  then show ?thesis using j by (simp add: serial_inv_def)
next
  case Exit
  then show ?thesis using j by (simp add: serial_inv_def)
next
  case (Acquire i prog)
  have "linesOf i (received s) = []" using serial_invD(3) [OF j Acquire(3)] Acquire(4) by simp
  then show ?thesis
    using serial_update [OF j Acquire(3), of s' "Running prog"] Acquire(6) by simp
next
  case (Request i a prog)
  have "linesOf i (received s) = [] \<or> (received s \<noteq> [] \<and> fst (last (received s)) = i)"
    using serial_invD(2) [OF j Request(3)] Request(4) by simp
  then show ?thesis
    using serial_update [OF j Request(3), of s' "Running prog"] Request(6) by simp
next
  case (Return i)
  show ?thesis
    using serial_update [OF j Return(3), of s' Returned] Return(6) by simp
next
  case (Release i)
  show ?thesis
    using serial_update [OF j Release(3), of s' Finished] Release(6) by simp
next
  case (Send i line prog)
  have one: "length (filter holdsPermit (units s)) \<le> 1"
    using inv lim unfolding scan_inv_def permits_def by simp
  have gi: "grouped i (received s)" by (rule serial_invD(1) [OF j Send(3)])
  have li: "linesOf i (received s) = [] \<or> (received s \<noteq> [] \<and> fst (last (received s)) = i)"
    using serial_invD(2) [OF j Send(3)] Send(4) by simp
  show ?thesis unfolding serial_inv_def
  proof (intro allI impI)
    fix k assume "k < length (units s')"
    then have k: "k < length (units s)" using Send by simp
    show "grouped k (received s')
        \<and> (\<forall>prog. units s' ! k = Running prog \<longrightarrow>
              linesOf k (received s') = []
              \<or> (received s' \<noteq> [] \<and> fst (last (received s')) = k))
        \<and> (\<forall>prog. units s' ! k = Blocked prog \<longrightarrow> linesOf k (received s') = [])"
    proof (cases "k = i")
      case True
      then show ?thesis using Send grouped_same [OF gi li, of line] by simp
    next
      case False
      have same: "units s' ! k = units s ! k" using Send False by simp
      have nr: "\<forall>p. units s ! k \<noteq> Running p"
      proof (intro allI notI)
        fix p assume "units s ! k = Running p"
        then have "2 \<le> length (filter holdsPermit (units s))"
          using two_holders [OF Send(3) k _ _ _, of holdsPermit "Blocked []"] False Send(4)
          by simp
        then show False using one by simp
      qed
      have g: "grouped k (received s')"
        using grouped_other [OF serial_invD(1) [OF j k], of i line] False Send by simp
      have b: "\<forall>p. units s ! k = Blocked p \<longrightarrow> linesOf k (received s') = []"
        using serial_invD(3) [OF j k] False Send by (simp add: linesOf_snoc)
      show ?thesis using g b nr same by simp
    qed
  qed
qed

lemma serial_init: "serial_inv (scan_init buckets)"
  by (simp add: serial_inv_def scan_init_def)

lemma serial_run:
  assumes "limit \<le> 1"
  shows "scan_inv net verbose limit buckets s \<Longrightarrow> serial_inv s
     \<Longrightarrow> run net verbose limit s es = Some s' \<Longrightarrow> serial_inv s'"
proof (induction es arbitrary: s)
  case Nil
  then show ?case by simp
next
  case (Cons e es)
  then obtain t where t: "step net verbose limit s e = Some t" "run net verbose limit t es = Some s'"
    by (auto split: option.splits)
  show ?case
    using Cons.IH [OF scan_inv_step [OF Cons.prems(1) t(1)]
        serial_step [OF Cons.prems(1) assms Cons.prems(2) t(1)] t(2)] .
qed

section \<open>Concrete runs\<close>

lemma run_listable_two:
  "run netListable False 2 (scan_init [''a'', ''b'']) scheduleTwo
   = Some \<lparr>mainPc = Exited, units = [Finished, Finished], sem = 0, wg = 0,
       received =
         [(0, ''EXISTS: https://storage.googleapis.com/a/''),
          (1, ''EXISTS: https://storage.googleapis.com/b/''),
          (0, ''    LISTABLE: a''), (0, ''        - a.txt''), (0, ''        - b.txt''),
          (1, ''    LISTABLE: b''), (1, ''        - a.txt''), (1, ''        - b.txt'')],
       issued =
         [(0, Head ''https://www.googleapis.com/storage/v1/b/a''),
          (1, Head ''https://www.googleapis.com/storage/v1/b/b''),
          (0, Get ''https://www.googleapis.com/storage/v1/b/a/o''),
          (1, Get ''https://www.googleapis.com/storage/v1/b/b/o'')]\<rparr>"
  by (simp add: scheduleTwo_def step_def scan_init_def checkBucket_def listObjects_def
      netListable_def)

lemma run_down_one:
  "run netDown False 1 (scan_init [''a'']) scheduleOne
   = Some \<lparr>mainPc = Exited, units = [Returned], sem = 1, wg = 0,
       received = [(0, ''ERROR: Could not connect to https://www.googleapis.com/storage/v1/b/a - no route to host'')],
       issued = [(0, Head ''https://www.googleapis.com/storage/v1/b/a'')]\<rparr>"
  by (simp add: scheduleOne_def step_def scan_init_def checkBucket_def netDown_def)

lemma run_listable_serial:
  "run netListable False 1 (scan_init [''a'', ''b'']) scheduleSerial
   = Some \<lparr>mainPc = Exited, units = [Finished, Finished], sem = 0, wg = 0,
       received =
         [(0, ''EXISTS: https://storage.googleapis.com/a/''),
          (0, ''    LISTABLE: a''), (0, ''        - a.txt''), (0, ''        - b.txt''),
          (1, ''EXISTS: https://storage.googleapis.com/b/''),
          (1, ''    LISTABLE: b''), (1, ''        - a.txt''), (1, ''        - b.txt'')],
       issued =
         [(0, Head ''https://www.googleapis.com/storage/v1/b/a''),
          (0, Get ''https://www.googleapis.com/storage/v1/b/a/o''),
          (1, Head ''https://www.googleapis.com/storage/v1/b/b''),
          (1, Get ''https://www.googleapis.com/storage/v1/b/b/o'')]\<rparr>"
  by (simp add: scheduleSerial_def step_def scan_init_def checkBucket_def listObjects_def
      netListable_def)

lemma serial_reached:
  assumes "limit \<le> 1" "run net verbose limit (scan_init buckets) es = Some s"
  shows "serial_inv s"
  by (rule serial_run [OF assms(1) scan_inv_init serial_init assms(2)])

lemma scan_inv_reached:
  "run net verbose limit (scan_init buckets) es = Some s \<Longrightarrow>
   scan_inv net verbose limit buckets s"
  by (rule scan_inv_run [OF scan_inv_init])

lemma checkBucket_listing:
  "httpHead net (''https://www.googleapis.com/storage/v1/b/'' @ bucket) = HeadResponse 200
   \<Longrightarrow> sent (checkBucket net bucket verbose)
       = (''EXISTS: https://storage.googleapis.com/'' @ bucket @ ''/'') # sent (listObjects net bucket)"
  by (simp add: checkBucket_def)

lemma checkBucket_forbidden:
  "httpHead net (''https://www.googleapis.com/storage/v1/b/'' @ bucket) = HeadResponse 403
   \<Longrightarrow> checkBucket net bucket verbose
       = [Head (''https://www.googleapis.com/storage/v1/b/'' @ bucket),
          Send (''EXISTS: https://storage.googleapis.com/'' @ bucket @ ''/'')]"
  by (simp add: checkBucket_def headBody_def)

lemma run_down_three:
  "run netDown False 2 (scan_init [''a'', ''b'', ''c''])
     [Spawn, Spawn, Spawn, Acquire 0, Acquire 1, Act 0]
   = Some \<lparr>mainPc = Spawning [],
       units =
         [Running [Send ''ERROR: Could not connect to https://www.googleapis.com/storage/v1/b/a - no route to host''],
          Running [Head ''https://www.googleapis.com/storage/v1/b/b'',
                   Send ''ERROR: Could not connect to https://www.googleapis.com/storage/v1/b/b - no route to host''],
          Blocked [Head ''https://www.googleapis.com/storage/v1/b/c'',
                   Send ''ERROR: Could not connect to https://www.googleapis.com/storage/v1/b/c - no route to host'']],
       sem = 2, wg = 3, received = [],
       issued = [(0, Head ''https://www.googleapis.com/storage/v1/b/a'')]\<rparr>"
  by (simp add: step_def scan_init_def checkBucket_def netDown_def)

section \<open>Claims about the prober and the lister\<close>

text \<open>
  C1. When the probe of a candidate is answered with status 403, the prober should send
  no line if the body of the response contains \<open>Access denied\<close> or \<open>does not have\<close>, and
  the EXISTS line otherwise. The probe is a HEAD request, and the body the prober reads
  is that of the HEAD response, which has no bytes: the test for the two phrases never
  succeeds and every status 403 gives an EXISTS line, by \<open>checkBucket_forbidden\<close>. Here
  the provider answers the probe of \<open>acme\<close> with status 403, its body on a GET holds
  \<open>Access denied\<close>, and the prober sends the EXISTS line; the probe is its only request.
\<close>

theorem C1_denied_probe_sends_exists:
  "httpHead netDenied ''https://www.googleapis.com/storage/v1/b/acme'' = HeadResponse 403
   \<and> httpGet netDenied ''https://www.googleapis.com/storage/v1/b/acme''
       = GetResponse 403 \<lparr>content = ''Access denied.'', readError = None\<rparr>
   \<and> bytesContains ''Access denied.'' ''Access denied''
   \<and> sent (checkBucket netDenied ''acme'' False)
       = [''EXISTS: https://storage.googleapis.com/acme/'']
   \<and> requests (checkBucket netDenied ''acme'' False)
       = [Head ''https://www.googleapis.com/storage/v1/b/acme'']"
  by (simp add: netDenied_def checkBucket_def headBody_def)

text \<open>
  C8. When the probe of a candidate \<open>Y\<close> is answered with status 200 and the listing with
  status 200 and an index of the two objects \<open>a.txt\<close> and \<open>b.txt\<close>, the lines sent for \<open>Y\<close>
  are its EXISTS line, its LISTABLE line and the two object lines, in this order.
\<close>

theorem C8_listable_two_objects:
  assumes "httpHead net (''https://www.googleapis.com/storage/v1/b/'' @ Y)
           = HeadResponse 200"
      and "httpGet net (''https://www.googleapis.com/storage/v1/b/'' @ Y @ ''/o'')
           = GetResponse 200 body"
      and "jsonDecode net body = Inr \<lparr>Items = [\<lparr>Name = ''a.txt''\<rparr>, \<lparr>Name = ''b.txt''\<rparr>]\<rparr>"
  shows "sent (checkBucket net Y verbose)
         = [''EXISTS: https://storage.googleapis.com/'' @ Y @ ''/'',
            ''    LISTABLE: '' @ Y, ''        - a.txt'', ''        - b.txt'']"
  using assms by (simp add: checkBucket_def listObjects_def)

theorem C8_listable_two_objects_witness:
  "sent (checkBucket netListable ''acme'' False)
   = [''EXISTS: https://storage.googleapis.com/acme/'',
      ''    LISTABLE: acme'', ''        - a.txt'', ''        - b.txt'']"
proof -
  have a: "httpHead netListable (''https://www.googleapis.com/storage/v1/b/'' @ ''acme'')
      = HeadResponse 200"
    by (simp add: netListable_def)
  have b: "httpGet netListable (''https://www.googleapis.com/storage/v1/b/'' @ ''acme'' @ ''/o'')
      = GetResponse 200 \<lparr>content = ''{items}'', readError = None\<rparr>"
    by (simp add: netListable_def)
  have c: "jsonDecode netListable \<lparr>content = ''{items}'', readError = None\<rparr>
      = Inr \<lparr>Items = [\<lparr>Name = ''a.txt''\<rparr>, \<lparr>Name = ''b.txt''\<rparr>]\<rparr>"
    by (simp add: netListable_def)
  show ?thesis using C8_listable_two_objects [OF a b c, of False] by simp
qed

text \<open>
  C10, as stated: whenever the body of the listing response fails to decode as JSON, the
  lister sends one ERROR line. It does so only under status 200. Here the listing
  answers with status 500 and the body \<open><html>\<close>, on which the decoder fails: the
  lister does not decode it and sends nothing.
\<close>

theorem C10_undecodable_without_200:
  "httpGet (netBadListing 500) ''https://www.googleapis.com/storage/v1/b/acme/o''
     = GetResponse 500 \<lparr>content = ''<html>'', readError = None\<rparr>
   \<and> jsonDecode (netBadListing 500) \<lparr>content = ''<html>'', readError = None\<rparr>
     = Inl ''invalid character''
   \<and> sent (listObjects (netBadListing 500) ''acme'') = []"
  by (simp add: netBadListing_def listObjects_def)

text \<open>
  C10, amended: when the listing request fails at transport level, or its response has
  status 200 and a body that fails to decode as JSON, the lister sends exactly one line,
  an ERROR line, and neither a LISTABLE line nor an object line. When the response has
  any other status the lister sends no line at all, whatever the body. An event of one
  unit changes neither the state of another unit, nor the lines received from another
  unit, nor the state of the main goroutine: the failure stays local to its candidate.
\<close>

theorem C10_lister_failure:
  "(httpGet net (''https://www.googleapis.com/storage/v1/b/'' @ bucket @ ''/o'') = GetError err
      \<longrightarrow> sent (listObjects net bucket)
          = [''ERROR: Could not list objects in '' @ bucket @ '' - '' @ err])
   \<and> (httpGet net (''https://www.googleapis.com/storage/v1/b/'' @ bucket @ ''/o'')
        = GetResponse 200 body \<and> jsonDecode net body = Inl err
      \<longrightarrow> sent (listObjects net bucket)
          = [''ERROR: Could not parse object list for '' @ bucket @ '' - '' @ err])
   \<and> (httpGet net (''https://www.googleapis.com/storage/v1/b/'' @ bucket @ ''/o'')
        = GetResponse status body \<and> status \<noteq> 200
      \<longrightarrow> sent (listObjects net bucket) = [])
   \<and> (step net verbose limit s e = Some s' \<and> eventUnit e = Some i \<and> j \<noteq> i
      \<longrightarrow> units s' ! j = units s ! j \<and> mainPc s' = mainPc s
          \<and> linesOf j (received s') = linesOf j (received s))"
proof (intro conjI impI)
  assume "httpGet net (''https://www.googleapis.com/storage/v1/b/'' @ bucket @ ''/o'') = GetError err"
  then show "sent (listObjects net bucket)
          = [''ERROR: Could not list objects in '' @ bucket @ '' - '' @ err]"
    by (simp add: listObjects_def)
next
  assume "httpGet net (''https://www.googleapis.com/storage/v1/b/'' @ bucket @ ''/o'')
        = GetResponse 200 body \<and> jsonDecode net body = Inl err"
  then show "sent (listObjects net bucket)
          = [''ERROR: Could not parse object list for '' @ bucket @ '' - '' @ err]"
    by (simp add: listObjects_def)
next
  assume "httpGet net (''https://www.googleapis.com/storage/v1/b/'' @ bucket @ ''/o'')
        = GetResponse status body \<and> status \<noteq> 200"
  then show "sent (listObjects net bucket) = []"
    by (simp add: listObjects_def)
next
  assume a: "step net verbose limit s e = Some s' \<and> eventUnit e = Some i \<and> j \<noteq> i"
  then have f: "units s' ! j = units s ! j \<and> mainPc s' = mainPc s
          \<and> linesOf j (received s') = linesOf j (received s)"
    using frame_step [of net verbose limit s e s' i j] by blast
  from f show "units s' ! j = units s ! j" by blast
  from f show "mainPc s' = mainPc s" by blast
  from f show "linesOf j (received s') = linesOf j (received s)" by blast
qed

theorem C10_lister_failure_witness:
  "sent (listObjects netDown ''acme'')
     = [''ERROR: Could not list objects in acme - no route to host'']
   \<and> sent (listObjects (netBadListing 200) ''acme'')
     = [''ERROR: Could not parse object list for acme - invalid character'']
   \<and> sent (listObjects (netBadListing 404) ''acme'') = []
   \<and> units \<lparr>mainPc = Waiting, units = [Running [Send ''x''], Blocked []], sem = 1, wg = 2,
             received = [], issued = []\<rparr> ! 1 = Blocked []"
proof -
  have a: "httpGet netDown (''https://www.googleapis.com/storage/v1/b/'' @ ''acme'' @ ''/o'')
      = GetError ''no route to host''"
    by (simp add: netDown_def)
  have b: "httpGet (netBadListing 200) (''https://www.googleapis.com/storage/v1/b/'' @ ''acme'' @ ''/o'')
      = GetResponse 200 \<lparr>content = ''<html>'', readError = None\<rparr>
    \<and> jsonDecode (netBadListing 200) \<lparr>content = ''<html>'', readError = None\<rparr>
      = Inl ''invalid character''"
    by (simp add: netBadListing_def)
  have c: "step netDown False 1
       \<lparr>mainPc = Waiting, units = [Blocked [Send ''x''], Blocked []], sem = 0, wg = 2,
         received = [], issued = []\<rparr> (Acquire 0)
     = Some \<lparr>mainPc = Waiting, units = [Running [Send ''x''], Blocked []], sem = 1, wg = 2,
         received = [], issued = []\<rparr>
     \<and> eventUnit (Acquire 0) = Some 0 \<and> (1::nat) \<noteq> 0"
    by (simp add: step_def)
  have d: "httpGet (netBadListing 404) (''https://www.googleapis.com/storage/v1/b/'' @ ''acme'' @ ''/o'')
      = GetResponse 404 \<lparr>content = ''<html>'', readError = None\<rparr> \<and> (404::nat) \<noteq> 200"
    by (simp add: netBadListing_def)
  note t4 = C10_lister_failure [where net = "netBadListing 404" and bucket = "''acme''"
      and status = 404 and body = "\<lparr>content = ''<html>'', readError = None\<rparr>"]
  have r4: "sent (listObjects (netBadListing 404) ''acme'') = []"
    using t4 d by simp
  note t1 = C10_lister_failure [where net = netDown and bucket = "''acme''"
      and err = "''no route to host''"]
  note t2 = C10_lister_failure [where net = "netBadListing 200" and bucket = "''acme''"
      and body = "\<lparr>content = ''<html>'', readError = None\<rparr>"
      and err = "''invalid character''"]
  note t3 = C10_lister_failure [where net = netDown and verbose = False and limit = 1
      and s = "\<lparr>mainPc = Waiting, units = [Blocked [Send ''x''], Blocked []], sem = 0, wg = 2,
         received = [], issued = []\<rparr>" and e = "Acquire 0"
      and s' = "\<lparr>mainPc = Waiting, units = [Running [Send ''x''], Blocked []], sem = 1, wg = 2,
         received = [], issued = []\<rparr>" and i = 0 and j = 1]
  have r1: "sent (listObjects netDown ''acme'')
     = [''ERROR: Could not list objects in acme - no route to host'']"
    using t1 a by simp
  have r2: "sent (listObjects (netBadListing 200) ''acme'')
     = [''ERROR: Could not parse object list for acme - invalid character'']"
    using t2 b by simp
  have r3: "units \<lparr>mainPc = Waiting, units = [Running [Send ''x''], Blocked []], sem = 1, wg = 2,
             received = [], issued = []\<rparr> ! 1 = Blocked []"
    using t3 c by simp
  show ?thesis using r1 r2 r3 r4 by simp
qed

section \<open>Claims about the scan\<close>

text \<open>
  C2, as stated: in every interleaving the lines of a candidate that leads to a listing
  are contiguous in the shared stream. In the schedule \<open>scheduleTwo\<close>, under the limit 2,
  the EXISTS line of the second candidate arrives between the EXISTS line and the
  LISTABLE line of the first.
\<close>

theorem C2_interleaved_schedule:
  "map_option received (run netListable False 2 (scan_init [''a'', ''b'']) scheduleTwo)
   = Some [(0, ''EXISTS: https://storage.googleapis.com/a/''),
           (1, ''EXISTS: https://storage.googleapis.com/b/''),
           (0, ''    LISTABLE: a''), (0, ''        - a.txt''), (0, ''        - b.txt''),
           (1, ''    LISTABLE: b''), (1, ''        - a.txt''), (1, ''        - b.txt'')]
   \<and> \<not> contiguous 0
          [(0, ''EXISTS: https://storage.googleapis.com/a/''),
           (1, ''EXISTS: https://storage.googleapis.com/b/''),
           (0, ''    LISTABLE: a''), (0, ''        - a.txt''), (0, ''        - b.txt''),
           (1, ''    LISTABLE: b''), (1, ''        - a.txt''), (1, ''        - b.txt'')]"
  unfolding run_listable_two by (simp add: contiguous_def)

text \<open>
  C2, amended: in every interleaving, at every moment, the lines received from a
  candidate followed by the lines it has still to send are the lines of its probe, in
  the order of the probe; once the channel is closed, the lines received from the
  candidate are all the lines of its probe. For a candidate whose probe is answered with
  status 200 these are the EXISTS line followed by the lines of the lister. Under a
  limit of 1 the lines of a candidate are contiguous in the stream; under a larger limit
  lines of other candidates may stand between them.
\<close>

theorem C2_lines_in_order:
  assumes "run net verbose limit (scan_init buckets) es = Some s" "i < length (units s)"
  shows "linesOf i (received s) @ sent (remaining (units s ! i))
           = sent (checkBucket net (buckets ! i) verbose)
       \<and> (mainPc s = Closed \<or> mainPc s = Exited
          \<longrightarrow> linesOf i (received s) = sent (checkBucket net (buckets ! i) verbose))
       \<and> (httpHead net (''https://www.googleapis.com/storage/v1/b/'' @ buckets ! i)
                    = HeadResponse 200
          \<longrightarrow> sent (checkBucket net (buckets ! i) verbose)
              = (''EXISTS: https://storage.googleapis.com/'' @ buckets ! i @ ''/'')
                # sent (listObjects net (buckets ! i)))
       \<and> (limit \<le> 1 \<longrightarrow> contiguous i (received s))"
proof -
  have inv: "scan_inv net verbose limit buckets s" using assms(1) by (rule scan_inv_reached)
  have c: "limit \<le> 1 \<longrightarrow> contiguous i (received s)"
  proof
    assume "limit \<le> 1"
    then have "serial_inv s" using assms(1) by (rule serial_reached)
    then have "grouped i (received s)" using assms(2) by (rule serial_invD(1))
    then show "contiguous i (received s)" by (rule grouped_contiguous)
  qed
  have a: "linesOf i (received s) @ sent (remaining (units s ! i))
           = sent (checkBucket net (buckets ! i) verbose)"
    by (rule scan_inv_lines [OF inv assms(2)])
  have b: "mainPc s = Closed \<or> mainPc s = Exited
          \<longrightarrow> linesOf i (received s) = sent (checkBucket net (buckets ! i) verbose)"
  proof
    assume c: "mainPc s = Closed \<or> mainPc s = Exited"
    have "length (units s) = length buckets" by (rule closed_units(1) [OF inv c])
    then show "linesOf i (received s) = sent (checkBucket net (buckets ! i) verbose)"
      using closed_units(3) [OF inv c] assms(2) by simp
  qed
  show ?thesis using a b c checkBucket_listing by blast
qed

theorem C2_lines_in_order_witness:
  "linesOf 0 [(0, ''EXISTS: https://storage.googleapis.com/a/''),
              (1, ''EXISTS: https://storage.googleapis.com/b/''),
              (0, ''    LISTABLE: a''), (0, ''        - a.txt''), (0, ''        - b.txt''),
              (1, ''    LISTABLE: b''), (1, ''        - a.txt''), (1, ''        - b.txt'')]
   = sent (checkBucket netListable ''a'' False)
   \<and> sent (checkBucket netListable ''a'' False)
     = ''EXISTS: https://storage.googleapis.com/a/'' # sent (listObjects netListable ''a'')
   \<and> (1::nat) \<le> 1
   \<and> contiguous 1 [(0, ''EXISTS: https://storage.googleapis.com/a/''),
          (0, ''    LISTABLE: a''), (0, ''        - a.txt''), (0, ''        - b.txt''),
          (1, ''EXISTS: https://storage.googleapis.com/b/''),
          (1, ''    LISTABLE: b''), (1, ''        - a.txt''), (1, ''        - b.txt'')]"
proof -
  have h: "httpHead netListable (''https://www.googleapis.com/storage/v1/b/'' @ [''a'', ''b''] ! 0)
      = HeadResponse 200"
    by (simp add: netListable_def)
  have a: "linesOf 0 [(0, ''EXISTS: https://storage.googleapis.com/a/''),
              (1, ''EXISTS: https://storage.googleapis.com/b/''),
              (0, ''    LISTABLE: a''), (0, ''        - a.txt''), (0, ''        - b.txt''),
              (1, ''    LISTABLE: b''), (1, ''        - a.txt''), (1, ''        - b.txt'')]
       = sent (checkBucket netListable ''a'' False)
     \<and> sent (checkBucket netListable ''a'' False)
       = ''EXISTS: https://storage.googleapis.com/a/'' # sent (listObjects netListable ''a'')"
    using C2_lines_in_order [OF run_listable_two, of 0] h by simp
  have l: "(1::nat) \<le> 1" by simp
  have b: "contiguous 1 [(0, ''EXISTS: https://storage.googleapis.com/a/''),
          (0, ''    LISTABLE: a''), (0, ''        - a.txt''), (0, ''        - b.txt''),
          (1, ''EXISTS: https://storage.googleapis.com/b/''),
          (1, ''    LISTABLE: b''), (1, ''        - a.txt''), (1, ''        - b.txt'')]"
    using C2_lines_in_order [OF run_listable_serial, of 1] l by simp
  show ?thesis using a b by simp
qed

text \<open>
  C3. For a limit of at least 1 and any list of candidates, in every state the scan can
  reach the number of units holding a permit is the number of elements in the channel
  \<open>sem\<close> and is at most the limit; every unit that has issued a request has acquired a
  permit before, and a unit can only act while it holds one.
\<close>

theorem C3_permit_bound:
  assumes "1 \<le> limit" "run net verbose limit (scan_init buckets) es = Some s"
  shows "permits s \<le> limit \<and> sem s = permits s
       \<and> (\<forall>r \<in> set (issued s). fst r < length (units s) \<and> acquired (units s ! fst r))
       \<and> (\<forall>i s'. step net verbose limit s (Act i) = Some s'
            \<longrightarrow> i < length (units s) \<and> holdsPermit (units s ! i))"
proof -
  have inv: "scan_inv net verbose limit buckets s" using assms(2) by (rule scan_inv_reached)
  have a: "sem s = permits s" "sem s \<le> limit"
    "\<forall>r \<in> set (issued s). fst r < length (units s) \<and> acquired (units s ! fst r)"
    using inv unfolding scan_inv_def by blast+
  have b: "\<forall>i s'. step net verbose limit s (Act i) = Some s'
            \<longrightarrow> i < length (units s) \<and> holdsPermit (units s ! i)"
  proof (intro allI impI)
    fix i s' assume "step net verbose limit s (Act i) = Some s'"
    then show "i < length (units s) \<and> holdsPermit (units s ! i)"
      by (cases rule: step_cases) auto
  qed
  show ?thesis using a b by simp
qed

theorem C3_permit_bound_witness:
  "(1::nat) \<le> 2
   \<and> map_option permits
        (run netDown False 2 (scan_init [''a'', ''b'', ''c''])
           [Spawn, Spawn, Spawn, Acquire 0, Acquire 1, Act 0]) = Some 2
   \<and> map_option (\<lambda>s. step netDown False 2 s (Acquire 2))
        (run netDown False 2 (scan_init [''a'', ''b'', ''c''])
           [Spawn, Spawn, Spawn, Acquire 0, Acquire 1, Act 0]) = Some None"
proof -
  have l: "(1::nat) \<le> 2" by simp
  have "permits (the (run netDown False 2 (scan_init [''a'', ''b'', ''c''])
           [Spawn, Spawn, Spawn, Acquire 0, Acquire 1, Act 0])) \<le> 2"
    using C3_permit_bound [OF l run_down_three] unfolding run_down_three by simp
  then show ?thesis
    unfolding run_down_three by (simp add: permits_def step_def)
qed

text \<open>
  C4, as stated: every spawned unit completes, releasing its permit, and the stream is
  closed only after all units have completed. \<open>checkBucket\<close> defers \<open>wg.Done\<close>, so the
  wait group is released before the unit receives from \<open>sem\<close>: in the schedule
  \<open>scheduleOne\<close>, with every request failing at transport level, the channel is closed
  and \<open>main\<close> returns while the only unit still holds its permit.
\<close>

theorem C4_exit_before_release:
  "map_option mainPc (run netDown False 1 (scan_init [''a'']) scheduleOne) = Some Exited
   \<and> map_option units (run netDown False 1 (scan_init [''a'']) scheduleOne) = Some [Returned]
   \<and> map_option sem (run netDown False 1 (scan_init [''a'']) scheduleOne) = Some 1
   \<and> holdsPermit Returned"
  unfolding run_down_one by simp

text \<open>
  C4, amended: for a limit of at least 1 and any list of candidates, with every request
  returning, the scan terminates: no schedule is longer than four events per candidate
  plus the actions of its probe plus three; no state before the return of \<open>main\<close> is
  stuck. The channel is closed only when every candidate has been spawned and has
  returned from \<open>checkBucket\<close>, all its lines received, whatever the network answers. A
  unit that has returned is never blocked on releasing its permit, but it may do so
  after the channel is closed, or not at all when \<open>main\<close> returns first.
\<close>

theorem C4_scan_terminates:
  assumes "1 \<le> limit" "run net verbose limit (scan_init buckets) es = Some s"
  shows "length es \<le> sum_list (map (\<lambda>bucket. length (checkBucket net bucket verbose) + 4) buckets) + 3
       \<and> (mainPc s \<noteq> Exited \<longrightarrow> (\<exists>e. step net verbose limit s e \<noteq> None))
       \<and> (mainPc s = Closed \<or> mainPc s = Exited
          \<longrightarrow> length (units s) = length buckets
              \<and> (\<forall>u \<in> set (units s). u = Returned \<or> u = Finished)
              \<and> (\<forall>i < length buckets.
                    linesOf i (received s) = sent (checkBucket net (buckets ! i) verbose)))
       \<and> (\<forall>i < length (units s). units s ! i = Returned \<and> mainPc s \<noteq> Exited
            \<longrightarrow> step net verbose limit s (Release i) \<noteq> None)"
proof -
  have inv: "scan_inv net verbose limit buckets s" using assms(2) by (rule scan_inv_reached)
  have "budget net verbose (scan_init buckets) = budget net verbose s + length es"
    by (rule budget_run [OF assms(2)])
  then have a: "length es \<le> sum_list (map (\<lambda>bucket. length (checkBucket net bucket verbose) + 4) buckets) + 3"
    by (simp add: budget_def scan_init_def)
  have b: "mainPc s \<noteq> Exited \<longrightarrow> (\<exists>e. step net verbose limit s e \<noteq> None)"
    using progress [OF inv assms(1)] by blast
  have c: "mainPc s = Closed \<or> mainPc s = Exited
          \<longrightarrow> length (units s) = length buckets
              \<and> (\<forall>u \<in> set (units s). u = Returned \<or> u = Finished)
              \<and> (\<forall>i < length buckets.
                    linesOf i (received s) = sent (checkBucket net (buckets ! i) verbose))"
    using closed_units [OF inv] by blast
  have d: "\<forall>i < length (units s). units s ! i = Returned \<and> mainPc s \<noteq> Exited
            \<longrightarrow> step net verbose limit s (Release i) \<noteq> None"
    using release_enabled [OF inv] by blast
  show ?thesis using a b c d by blast
qed

theorem C4_scan_terminates_witness:
  "(1::nat) \<le> 1
   \<and> length scheduleOne \<le> 9
   \<and> linesOf 0 [(0, ''ERROR: Could not connect to https://www.googleapis.com/storage/v1/b/a - no route to host'')]
     = sent (checkBucket netDown ''a'' False)"
proof -
  have l: "(1::nat) \<le> 1" by simp
  have c: "length (checkBucket netDown ''a'' False) = 2" by (simp add: checkBucket_def netDown_def)
  show ?thesis
    using C4_scan_terminates [OF l run_down_one] c by simp
qed

section \<open>Facts about the setup\<close>

lemma andThen_cases:
  assumes "andThen m f = (out, r)"
  shows "(\<exists>e. m = (out, Inl e) \<and> r = Inl e)
       \<or> (\<exists>o1 x o2. m = (o1, Inr x) \<and> f x = (o2, r) \<and> out = o1 @ o2)"
proof (cases m)
  case (Pair o1 r1)
  show ?thesis
  proof (cases r1)
    case (Inl e)
    then show ?thesis using assms Pair by (simp add: andThen_def)
  next
    case (Inr x)
    then show ?thesis using assms Pair by (cases "f x") (simp add: andThen_def)
  qed
qed

lemma andThen_fatal: "andThen (out, Inl e) f = (out, Inl e)"
  by (simp add: andThen_def)

lemma andThen_result: "f x = (o2, r) \<Longrightarrow> andThen (o1, Inr x) f = (o1 @ o2, r)"
  by (simp add: andThen_def)

lemma quiet_andThen:
  assumes "quiet m" "\<And>x. quiet (f x)"
  shows "quiet (andThen m f)"
proof -
  obtain out r where a: "andThen m f = (out, r)" by (cases "andThen m f") auto
  from andThen_cases [OF a] show ?thesis
  proof (elim disjE exE conjE)
    fix e assume "m = (out, Inl e)" "r = Inl e"
    then show ?thesis unfolding a using assms(1) by (simp add: quiet_def)
  next
    fix o1 x o2 assume h: "m = (o1, Inr x)" "f x = (o2, r)" "out = o1 @ o2"
    have q1: "\<forall>chunk \<in> set o1. \<not> isSummary chunk" using assms(1) h(1) by (simp add: quiet_def)
    have q2: "quiet (o2, r)" using assms(2) [of x] h(2) by simp
    show ?thesis unfolding a using q1 q2 h(3) by (auto simp: quiet_def)
  qed
qed

lemma quiet_return: "quiet ([], Inr x)"
  by (simp add: quiet_def)

lemma quiet_if: "quiet a \<Longrightarrow> quiet b \<Longrightarrow> quiet (if c then a else b)"
  by simp

lemma quiet_ensureWordlist: "quiet (ensureWordlist env net)"
  by (simp add: ensureWordlist_def quiet_def Let_def split: sum.splits option.splits)

lemma quiet_readLinesFromFile: "quiet (readLinesFromFile env filePath)"
  by (simp add: readLinesFromFile_def quiet_def split: sum.splits)

lemma quiet_generatePermutationsFrom: "quiet (generatePermutationsFrom env kw wordlistPath)"
  unfolding generatePermutationsFrom_def
  by (rule quiet_andThen [OF quiet_readLinesFromFile quiet_return])

lemma quiet_collectBuckets: "quiet (collectBuckets env wordlistPath kws buckets)"
proof (induction kws arbitrary: buckets)
  case Nil
  show ?case by (simp add: quiet_return)
next
  case (Cons kw kws)
  show ?case
    unfolding collectBuckets.simps
    by (rule quiet_andThen [OF quiet_generatePermutationsFrom Cons.IH])
qed

lemma quiet_missing:
  "quiet ([Stdout ''ERROR: Provide either a keyword (-n) or a keyword list file (-l)\<newline>'',
           Stderr usage],
          Inl MissingInput)"
  by (simp add: quiet_def)

lemma quiet_main_inputs: "quiet (main_inputs env net fl)"
  unfolding main_inputs_def resolveWordlist_def loadKeywords_def
  by (intro quiet_if quiet_andThen quiet_missing quiet_ensureWordlist quiet_readLinesFromFile
      quiet_collectBuckets quiet_return)

lemma isSummary_summaryLine: "isSummary (Stdout (summaryLine buckets kws))"
  by (simp add: summaryLine_def)

text \<open>The outcome of \<open>main_setup\<close> once the inputs are there.\<close>

lemma main_setup_after_inputs:
  assumes "main_inputs env net fl = (o1, Inr (kws, buckets))"
  shows "main_setup env net fl =
     (if flag_outFile fl \<noteq> [] then
        (case createFile env (flag_outFile fl) of
           Some err \<Rightarrow>
             (o1 @ [Stdout (summaryLine buckets kws),
                    Stdout (''ERROR: Could not create output file: '' @ err @ ''\<newline>'')],
              Inl OutputFileUncreatable)
         | None \<Rightarrow> (o1 @ [Stdout (summaryLine buckets kws)], Inr buckets))
      else (o1 @ [Stdout (summaryLine buckets kws)], Inr buckets))"
  using assms
  by (simp add: main_setup_def openOutput_def andThen_def split: option.splits)

lemma main_setup_inputs_fatal:
  assumes "main_inputs env net fl = (out, Inl e)"
  shows "main_setup env net fl = (out, Inl e)"
  using assms by (simp add: main_setup_def andThen_def)

lemma main_setup_fatal:
  assumes "main_setup env net fl = (out, Inl e)"
  shows "(main_inputs env net fl = (out, Inl e) \<and> e \<noteq> OutputFileUncreatable)
       \<or> (\<exists>o1 kws buckets err. main_inputs env net fl = (o1, Inr (kws, buckets))
            \<and> e = OutputFileUncreatable
            \<and> out = o1 @ [Stdout (summaryLine buckets kws),
                           Stdout (''ERROR: Could not create output file: '' @ err @ ''\<newline>'')])"
proof (cases "main_inputs env net fl")
  case (Pair o1 r)
  show ?thesis
  proof (cases r)
    case (Inl e')
    then have "main_setup env net fl = (o1, Inl e')"
      using Pair main_setup_inputs_fatal by simp
    then have eq: "o1 = out" "e' = e" using assms by simp_all
    have "quiet (o1, Inl e' :: fatal + (string list \<times> string list))"
      using quiet_main_inputs [of env net fl] Pair Inl by simp
    then have "e' \<noteq> OutputFileUncreatable" by (simp add: quiet_def)
    then show ?thesis using Pair Inl eq by simp
  next
    case (Inr x)
    obtain kws buckets where x: "x = (kws, buckets)" by (cases x) auto
    have m: "main_inputs env net fl = (o1, Inr (kws, buckets))" using Pair Inr x by simp
    show ?thesis
      using main_setup_after_inputs [OF m] assms m
      by (auto split: if_splits option.splits)
  qed
qed

lemma collectBuckets_unreadable:
  assumes "readLines env w = Inl err" "kws \<noteq> []"
  shows "collectBuckets env w kws buckets
         = ([Stdout (''ERROR: Unable to read file: '' @ err @ ''\<newline>'')], Inl UnreadableFile)"
proof (cases kws)
  case Nil
  then show ?thesis using assms(2) by simp
next
  case (Cons kw rest)
  then show ?thesis
    using assms(1)
    by (simp add: generatePermutationsFrom_def readLinesFromFile_def andThen_def)
qed

lemma main_start_fatal:
  "main_setup env net fl = (out, Inl e) \<Longrightarrow> main_start env net fl = (out, None)"
  by (simp add: main_start_def)

lemma run_setup_acme:
  "main_setup envReadOnly netDown flagsAcme
     = ([Stdout ''\<newline>Generated 10 bucket names from 1 keyword(s).\<newline>'',
         Stdout ''ERROR: Could not create output file: permission denied\<newline>''],
        Inl OutputFileUncreatable)"
  by (simp add: main_setup_def main_inputs_def missingInput_def resolveWordlist_def
      loadKeywords_def openOutput_def andThen_def envReadOnly_def flagsAcme_def
      generatePermutationsFrom_def readLinesFromFile_def summaryLine_def
      generatePermutations_def removeDuplicates_def rawBuckets_def permutations_def expand_def
      digitsOf.simps)

lemma main_start_inputs_fatal:
  "main_inputs env net fl = (out, Inl e) \<Longrightarrow> main_start env net fl = (out, None)"
  by (intro main_start_fatal main_setup_inputs_fatal)

lemma main_inputs_resolve_fatal:
  "\<not> missingInput fl \<Longrightarrow> resolveWordlist env net fl = (p, Inl e)
   \<Longrightarrow> main_inputs env net fl = (p, Inl e)"
  by (simp add: main_inputs_def andThen_fatal)

section \<open>Claims about the setup\<close>

text \<open>
  C9, as stated: every fatal error of the setup ends the program before the summary
  \<open>Generated N bucket names\<close> is printed. \<open>main\<close> creates the output file after it has
  printed the summary: with an output file that cannot be created, the summary is
  printed and the error message follows it.
\<close>

theorem C9_summary_before_output_error:
  "main_setup envReadOnly netDown flagsAcme
     = ([Stdout ''\<newline>Generated 10 bucket names from 1 keyword(s).\<newline>'',
         Stdout ''ERROR: Could not create output file: permission denied\<newline>''],
        Inl OutputFileUncreatable)
   \<and> isSummary (Stdout ''\<newline>Generated 10 bucket names from 1 keyword(s).\<newline>'')"
  by (simp add: run_setup_acme)

text \<open>
  C9, amended. A missing input ends the program with an error message followed by the
  usage text. With the input there: an unknown home directory, a directory that cannot
  be created and a failed download, when the default wordlist is prepared, each end the
  program with their error message last; so does an unreadable keyword file; so does an
  unreadable wordlist file when there is at least one keyword, while it is never read
  when the keyword file has no line; an output file that cannot be created ends the
  program with the summary and then its error message. Every fatal end has written an
  error message, as the last thing unless the input is missing, has written no summary
  unless it is for the output file, and comes before the scan starts.
\<close>

theorem C9_fatal_ends_before_scan:
  "(missingInput fl \<longrightarrow>
      main_start env net fl
      = ([Stdout ''ERROR: Provide either a keyword (-n) or a keyword list file (-l)\<newline>'',
          Stderr (usageText env)], None))
   \<and> (\<not> missingInput fl \<and> flag_wordlist fl = [] \<and> userHomeDir env = Inl err \<longrightarrow>
      main_start env net fl
      = ([Stdout (''ERROR: Unable to locate home directory: '' @ err @ ''\<newline>'')], None))
   \<and> (\<not> missingInput fl \<and> flag_wordlist fl = [] \<and> userHomeDir env = Inr home
       \<and> statNotExist env (pathJoin env home wordlistFilename)
       \<and> mkdirAll env (pathDir env (pathJoin env home wordlistFilename)) = Some err \<longrightarrow>
      main_start env net fl
      = ([Stdout (''Wordlist not found. Downloading to '' @ pathJoin env home wordlistFilename
                  @ ''...\<newline>''),
          Stdout (''ERROR: Could not create directory ''
                  @ pathDir env (pathJoin env home wordlistFilename) @ '': '' @ err
                  @ ''\<newline>'')], None))
   \<and> (\<not> missingInput fl \<and> flag_wordlist fl = [] \<and> userHomeDir env = Inr home
       \<and> statNotExist env (pathJoin env home wordlistFilename)
       \<and> mkdirAll env (pathDir env (pathJoin env home wordlistFilename)) = None
       \<and> downloadFile env net wordlistURL (pathJoin env home wordlistFilename) = Some err \<longrightarrow>
      main_start env net fl
      = ([Stdout (''Wordlist not found. Downloading to '' @ pathJoin env home wordlistFilename
                  @ ''...\<newline>''),
          Stdout (''ERROR: Failed to download wordlist: '' @ err @ ''\<newline>'')], None))
   \<and> (\<not> missingInput fl \<and> resolveWordlist env net fl = (p, Inr w)
       \<and> flag_keywordList fl \<noteq> [] \<and> readLines env (flag_keywordList fl) = Inl err \<longrightarrow>
      main_start env net fl
      = (p @ [Stdout (''ERROR: Unable to read file: '' @ err @ ''\<newline>'')], None))
   \<and> (\<not> missingInput fl \<and> resolveWordlist env net fl = (p, Inr w)
       \<and> loadKeywords env fl = (q, Inr kws) \<and> kws \<noteq> [] \<and> readLines env w = Inl err \<longrightarrow>
      main_start env net fl
      = (p @ q @ [Stdout (''ERROR: Unable to read file: '' @ err @ ''\<newline>'')], None))
   \<and> (\<not> missingInput fl \<and> resolveWordlist env net fl = (p, Inr w)
       \<and> loadKeywords env fl = (q, Inr []) \<longrightarrow>
      main_inputs env net fl = (p @ q, Inr ([], [])))
   \<and> (main_inputs env net fl = (o1, Inr (kws, buckets))
       \<and> flag_outFile fl \<noteq> [] \<and> createFile env (flag_outFile fl) = Some err \<longrightarrow>
      main_start env net fl
      = (o1 @ [Stdout (summaryLine buckets kws),
               Stdout (''ERROR: Could not create output file: '' @ err @ ''\<newline>'')], None))
   \<and> (main_setup env net fl = (out, Inl e) \<longrightarrow>
      (\<exists>chunk \<in> set out. isError chunk)
      \<and> (e \<noteq> MissingInput \<longrightarrow> isError (last out))
      \<and> (e \<noteq> OutputFileUncreatable \<longrightarrow> (\<forall>chunk \<in> set out. \<not> isSummary chunk))
      \<and> (e = OutputFileUncreatable \<longrightarrow> isSummary (last (butlast out)))
      \<and> main_start env net fl = (out, None))"
proof (intro conjI impI)
  assume "missingInput fl"
  then have "main_inputs env net fl
      = ([Stdout ''ERROR: Provide either a keyword (-n) or a keyword list file (-l)\<newline>'',
          Stderr (usageText env)], Inl MissingInput)"
    by (simp add: main_inputs_def)
  then show "main_start env net fl
      = ([Stdout ''ERROR: Provide either a keyword (-n) or a keyword list file (-l)\<newline>'',
          Stderr (usageText env)], None)"
    by (rule main_start_inputs_fatal)
next
  assume a: "\<not> missingInput fl \<and> flag_wordlist fl = [] \<and> userHomeDir env = Inl err"
  then have "resolveWordlist env net fl
      = ([Stdout (''ERROR: Unable to locate home directory: '' @ err @ ''\<newline>'')], Inl NoHomeDir)"
    by (simp add: resolveWordlist_def ensureWordlist_def Let_def)
  then show "main_start env net fl
      = ([Stdout (''ERROR: Unable to locate home directory: '' @ err @ ''\<newline>'')], None)"
    using a by (intro main_start_inputs_fatal main_inputs_resolve_fatal) simp_all
next
  assume a: "\<not> missingInput fl \<and> flag_wordlist fl = [] \<and> userHomeDir env = Inr home
       \<and> statNotExist env (pathJoin env home wordlistFilename)
       \<and> mkdirAll env (pathDir env (pathJoin env home wordlistFilename)) = Some err"
  then have "resolveWordlist env net fl
      = ([Stdout (''Wordlist not found. Downloading to '' @ pathJoin env home wordlistFilename
                  @ ''...\<newline>''),
          Stdout (''ERROR: Could not create directory ''
                  @ pathDir env (pathJoin env home wordlistFilename) @ '': '' @ err
                  @ ''\<newline>'')], Inl MkdirFailed)"
    by (simp add: resolveWordlist_def ensureWordlist_def Let_def)
  then show "main_start env net fl
      = ([Stdout (''Wordlist not found. Downloading to '' @ pathJoin env home wordlistFilename
                  @ ''...\<newline>''),
          Stdout (''ERROR: Could not create directory ''
                  @ pathDir env (pathJoin env home wordlistFilename) @ '': '' @ err
                  @ ''\<newline>'')], None)"
    using a by (intro main_start_inputs_fatal main_inputs_resolve_fatal) simp_all
next
  assume a: "\<not> missingInput fl \<and> flag_wordlist fl = [] \<and> userHomeDir env = Inr home
       \<and> statNotExist env (pathJoin env home wordlistFilename)
       \<and> mkdirAll env (pathDir env (pathJoin env home wordlistFilename)) = None
       \<and> downloadFile env net wordlistURL (pathJoin env home wordlistFilename) = Some err"
  then have "resolveWordlist env net fl
      = ([Stdout (''Wordlist not found. Downloading to '' @ pathJoin env home wordlistFilename
                  @ ''...\<newline>''),
          Stdout (''ERROR: Failed to download wordlist: '' @ err @ ''\<newline>'')],
         Inl DownloadFailed)"
    by (simp add: resolveWordlist_def ensureWordlist_def Let_def)
  then show "main_start env net fl
      = ([Stdout (''Wordlist not found. Downloading to '' @ pathJoin env home wordlistFilename
                  @ ''...\<newline>''),
          Stdout (''ERROR: Failed to download wordlist: '' @ err @ ''\<newline>'')], None)"
    using a by (intro main_start_inputs_fatal main_inputs_resolve_fatal) simp_all
next
  assume a: "\<not> missingInput fl \<and> resolveWordlist env net fl = (p, Inr w)
       \<and> flag_keywordList fl \<noteq> [] \<and> readLines env (flag_keywordList fl) = Inl err"
  then have "loadKeywords env fl
      = ([Stdout (''ERROR: Unable to read file: '' @ err @ ''\<newline>'')], Inl UnreadableFile)"
    by (simp add: loadKeywords_def readLinesFromFile_def)
  then have "main_inputs env net fl
      = (p @ [Stdout (''ERROR: Unable to read file: '' @ err @ ''\<newline>'')], Inl UnreadableFile)"
    using a by (simp add: main_inputs_def andThen_def)
  then show "main_start env net fl
      = (p @ [Stdout (''ERROR: Unable to read file: '' @ err @ ''\<newline>'')], None)"
    by (rule main_start_inputs_fatal)
next
  assume a: "\<not> missingInput fl \<and> resolveWordlist env net fl = (p, Inr w)
       \<and> loadKeywords env fl = (q, Inr kws) \<and> kws \<noteq> [] \<and> readLines env w = Inl err"
  then have "collectBuckets env w kws []
      = ([Stdout (''ERROR: Unable to read file: '' @ err @ ''\<newline>'')], Inl UnreadableFile)"
    by (simp add: collectBuckets_unreadable)
  then have "main_inputs env net fl
      = (p @ q @ [Stdout (''ERROR: Unable to read file: '' @ err @ ''\<newline>'')],
         Inl UnreadableFile)"
    using a by (simp add: main_inputs_def andThen_def)
  then show "main_start env net fl
      = (p @ q @ [Stdout (''ERROR: Unable to read file: '' @ err @ ''\<newline>'')], None)"
    by (rule main_start_inputs_fatal)
next
  assume "\<not> missingInput fl \<and> resolveWordlist env net fl = (p, Inr w)
       \<and> loadKeywords env fl = (q, Inr [])"
  then show "main_inputs env net fl = (p @ q, Inr ([], []))"
    by (simp add: main_inputs_def andThen_def)
next
  assume a: "main_inputs env net fl = (o1, Inr (kws, buckets))
       \<and> flag_outFile fl \<noteq> [] \<and> createFile env (flag_outFile fl) = Some err"
  then have "main_setup env net fl
      = (o1 @ [Stdout (summaryLine buckets kws),
               Stdout (''ERROR: Could not create output file: '' @ err @ ''\<newline>'')],
         Inl OutputFileUncreatable)"
    using main_setup_after_inputs [of env net fl o1 kws buckets] by simp
  then show "main_start env net fl
      = (o1 @ [Stdout (summaryLine buckets kws),
               Stdout (''ERROR: Could not create output file: '' @ err @ ''\<newline>'')], None)"
    by (rule main_start_fatal)
next
  assume f: "main_setup env net fl = (out, Inl e)"
  show "main_start env net fl = (out, None)" using f by (rule main_start_fatal)
  from main_setup_fatal [OF f]
  have "(\<exists>chunk \<in> set out. isError chunk)
      \<and> (e \<noteq> MissingInput \<longrightarrow> isError (last out))
      \<and> (e \<noteq> OutputFileUncreatable \<longrightarrow> (\<forall>chunk \<in> set out. \<not> isSummary chunk))
      \<and> (e = OutputFileUncreatable \<longrightarrow> isSummary (last (butlast out)))"
  proof (elim disjE exE conjE)
    assume h: "main_inputs env net fl = (out, Inl e)" "e \<noteq> OutputFileUncreatable"
    have "quiet (out, Inl e :: fatal + (string list \<times> string list))"
      using quiet_main_inputs [of env net fl] h(1) by simp
    then show ?thesis using h(2) by (simp add: quiet_def)
  next
    fix o1 kws buckets err
    assume h: "e = OutputFileUncreatable"
      "out = o1 @ [Stdout (summaryLine buckets kws),
                   Stdout (''ERROR: Could not create output file: '' @ err @ ''\<newline>'')]"
    have b: "butlast out = o1 @ [Stdout (summaryLine buckets kws)]"
      unfolding h(2) by (simp add: butlast_append)
    have l: "last out = Stdout (''ERROR: Could not create output file: '' @ err @ ''\<newline>'')"
      unfolding h(2) by simp
    have m: "last out \<in> set out" unfolding h(2) by simp
    have el: "isError (last out)" unfolding l by simp
    have sb: "isSummary (last (butlast out))"
      unfolding b using isSummary_summaryLine [of buckets kws] by simp
    show ?thesis using h(1) m el sb by blast
  qed
  then show "\<exists>chunk \<in> set out. isError chunk"
    and "e \<noteq> MissingInput \<Longrightarrow> isError (last out)"
    and "e \<noteq> OutputFileUncreatable \<Longrightarrow> \<forall>chunk \<in> set out. \<not> isSummary chunk"
    and "e = OutputFileUncreatable \<Longrightarrow> isSummary (last (butlast out))"
    by blast+
qed

theorem C9_fatal_ends_before_scan_witness:
  "main_start envReadOnly netDown (flagsAcme\<lparr>flag_keyword := []\<rparr>)
     = ([Stdout ''ERROR: Provide either a keyword (-n) or a keyword list file (-l)\<newline>'',
         Stderr ''Usage of gcpenum:\<newline>''], None)
   \<and> main_start envReadOnly netDown (flagsAcme\<lparr>flag_wordlist := []\<rparr>)
     = ([Stdout ''ERROR: Unable to locate home directory: $HOME is not defined\<newline>''], None)
   \<and> main_start (envReadOnly\<lparr>userHomeDir := Inr ''/home/u''\<rparr>) netDown
        (flagsAcme\<lparr>flag_wordlist := []\<rparr>)
     = ([Stdout ''Wordlist not found. Downloading to /home/u/.config/gcpenum/words.txt...\<newline>'',
         Stdout ''ERROR: Could not create directory .: permission denied\<newline>''], None)
   \<and> main_start (envReadOnly\<lparr>userHomeDir := Inr ''/home/u'', mkdirAll := (\<lambda>path. None)\<rparr>) netDown
        (flagsAcme\<lparr>flag_wordlist := []\<rparr>)
     = ([Stdout ''Wordlist not found. Downloading to /home/u/.config/gcpenum/words.txt...\<newline>'',
         Stdout ''ERROR: Failed to download wordlist: no route to host\<newline>''], None)
   \<and> main_start envReadOnly netDown (flagsAcme\<lparr>flag_keywordList := ''missing.txt''\<rparr>)
     = ([Stdout ''ERROR: Unable to read file: no such file\<newline>''], None)
   \<and> main_start envReadOnly netDown (flagsAcme\<lparr>flag_wordlist := ''missing.txt''\<rparr>)
     = ([Stdout ''ERROR: Unable to read file: no such file\<newline>''], None)
   \<and> main_inputs envReadOnly netDown
        (flagsAcme\<lparr>flag_wordlist := ''missing.txt'', flag_keywordList := ''empty.txt''\<rparr>)
     = ([], Inr ([], []))
   \<and> main_start envReadOnly netDown flagsAcme
     = ([Stdout ''\<newline>Generated 10 bucket names from 1 keyword(s).\<newline>'',
         Stdout ''ERROR: Could not create output file: permission denied\<newline>''], None)
   \<and> isSummary (last (butlast
         [Stdout ''\<newline>Generated 10 bucket names from 1 keyword(s).\<newline>'',
          Stdout ''ERROR: Could not create output file: permission denied\<newline>'']))"
proof -
  note defs = missingInput_def flagsAcme_def resolveWordlist_def loadKeywords_def
    ensureWordlist_def readLinesFromFile_def downloadFile_def envReadOnly_def netDown_def
    wordlistFilename_def Let_def
  have r1: "main_start envReadOnly netDown (flagsAcme\<lparr>flag_keyword := []\<rparr>)
     = ([Stdout ''ERROR: Provide either a keyword (-n) or a keyword list file (-l)\<newline>'',
         Stderr (usageText envReadOnly)], None)"
    by (rule C9_fatal_ends_before_scan [where env = envReadOnly and net = netDown
          and fl = "flagsAcme\<lparr>flag_keyword := []\<rparr>", THEN conjunct1, THEN mp])
       (simp add: defs)
  have r2: "main_start envReadOnly netDown (flagsAcme\<lparr>flag_wordlist := []\<rparr>)
     = ([Stdout (''ERROR: Unable to locate home directory: '' @ ''$HOME is not defined''
                 @ ''\<newline>'')], None)"
    by (rule C9_fatal_ends_before_scan [where env = envReadOnly and net = netDown
          and fl = "flagsAcme\<lparr>flag_wordlist := []\<rparr>" and err = "''$HOME is not defined''",
          THEN conjunct2, THEN conjunct1, THEN mp])
       (simp add: defs)
  have r3: "main_start (envReadOnly\<lparr>userHomeDir := Inr ''/home/u''\<rparr>) netDown
        (flagsAcme\<lparr>flag_wordlist := []\<rparr>)
     = ([Stdout (''Wordlist not found. Downloading to ''
                 @ pathJoin (envReadOnly\<lparr>userHomeDir := Inr ''/home/u''\<rparr>) ''/home/u''
                     wordlistFilename
                 @ ''...\<newline>''),
         Stdout (''ERROR: Could not create directory ''
                 @ pathDir (envReadOnly\<lparr>userHomeDir := Inr ''/home/u''\<rparr>)
                     (pathJoin (envReadOnly\<lparr>userHomeDir := Inr ''/home/u''\<rparr>) ''/home/u''
                        wordlistFilename)
                 @ '': '' @ ''permission denied'' @ ''\<newline>'')], None)"
    by (rule C9_fatal_ends_before_scan [where env = "envReadOnly\<lparr>userHomeDir := Inr ''/home/u''\<rparr>"
          and net = netDown and fl = "flagsAcme\<lparr>flag_wordlist := []\<rparr>"
          and home = "''/home/u''" and err = "''permission denied''",
          THEN conjunct2, THEN conjunct2, THEN conjunct1, THEN mp])
       (simp add: defs)
  have r4: "main_start (envReadOnly\<lparr>userHomeDir := Inr ''/home/u'', mkdirAll := (\<lambda>path. None)\<rparr>)
        netDown (flagsAcme\<lparr>flag_wordlist := []\<rparr>)
     = ([Stdout (''Wordlist not found. Downloading to ''
                 @ pathJoin (envReadOnly\<lparr>userHomeDir := Inr ''/home/u'', mkdirAll := (\<lambda>path. None)\<rparr>)
                     ''/home/u'' wordlistFilename
                 @ ''...\<newline>''),
         Stdout (''ERROR: Failed to download wordlist: '' @ ''no route to host'' @ ''\<newline>'')],
        None)"
    by (rule C9_fatal_ends_before_scan [where
          env = "envReadOnly\<lparr>userHomeDir := Inr ''/home/u'', mkdirAll := (\<lambda>path. None)\<rparr>"
          and net = netDown and fl = "flagsAcme\<lparr>flag_wordlist := []\<rparr>"
          and home = "''/home/u''" and err = "''no route to host''",
          THEN conjunct2, THEN conjunct2, THEN conjunct2, THEN conjunct1, THEN mp])
       (simp add: defs)
  have r5: "main_start envReadOnly netDown (flagsAcme\<lparr>flag_keywordList := ''missing.txt''\<rparr>)
     = ([] @ [Stdout (''ERROR: Unable to read file: '' @ ''no such file'' @ ''\<newline>'')], None)"
    by (rule C9_fatal_ends_before_scan [where env = envReadOnly and net = netDown
          and fl = "flagsAcme\<lparr>flag_keywordList := ''missing.txt''\<rparr>"
          and p = "[]" and w = "''words.txt''" and err = "''no such file''",
          THEN conjunct2, THEN conjunct2, THEN conjunct2, THEN conjunct2, THEN conjunct1,
          THEN mp])
       (simp add: defs)
  have r6: "main_start envReadOnly netDown (flagsAcme\<lparr>flag_wordlist := ''missing.txt''\<rparr>)
     = ([] @ [] @ [Stdout (''ERROR: Unable to read file: '' @ ''no such file'' @ ''\<newline>'')],
        None)"
    by (rule C9_fatal_ends_before_scan [where env = envReadOnly and net = netDown
          and fl = "flagsAcme\<lparr>flag_wordlist := ''missing.txt''\<rparr>"
          and p = "[]" and q = "[]" and w = "''missing.txt''" and kws = "[''acme'']"
          and err = "''no such file''",
          THEN conjunct2, THEN conjunct2, THEN conjunct2, THEN conjunct2, THEN conjunct2,
          THEN conjunct1, THEN mp])
       (simp add: defs)
  have r7: "main_inputs envReadOnly netDown
        (flagsAcme\<lparr>flag_wordlist := ''missing.txt'', flag_keywordList := ''empty.txt''\<rparr>)
     = ([] @ [], Inr ([], []))"
    by (rule C9_fatal_ends_before_scan [where env = envReadOnly and net = netDown
          and fl = "flagsAcme\<lparr>flag_wordlist := ''missing.txt'', flag_keywordList := ''empty.txt''\<rparr>"
          and p = "[]" and q = "[]" and w = "''missing.txt''",
          THEN conjunct2, THEN conjunct2, THEN conjunct2, THEN conjunct2, THEN conjunct2,
          THEN conjunct2, THEN conjunct1, THEN mp])
       (simp add: defs)
  have h8: "main_inputs envReadOnly netDown flagsAcme
        = ([], Inr ([''acme''],
             [''acme-dev'', ''dev-acme'', ''acme_dev'', ''dev_acme'', ''acmedev'', ''devacme'',
              ''acme'', ''acme.com'', ''acme.net'', ''acme.org'']))
      \<and> flag_outFile flagsAcme \<noteq> []
      \<and> createFile envReadOnly (flag_outFile flagsAcme) = Some ''permission denied''"
    by (simp add: main_inputs_def missingInput_def resolveWordlist_def
      loadKeywords_def andThen_def envReadOnly_def flagsAcme_def
      generatePermutationsFrom_def readLinesFromFile_def
      generatePermutations_def removeDuplicates_def rawBuckets_def permutations_def expand_def)
  have r8: "main_start envReadOnly netDown flagsAcme
     = ([] @ [Stdout (summaryLine
               [''acme-dev'', ''dev-acme'', ''acme_dev'', ''dev_acme'', ''acmedev'', ''devacme'',
                ''acme'', ''acme.com'', ''acme.net'', ''acme.org''] [''acme'']),
              Stdout (''ERROR: Could not create output file: '' @ ''permission denied''
                      @ ''\<newline>'')],
        None)"
    by (rule C9_fatal_ends_before_scan [where env = envReadOnly and net = netDown
          and fl = flagsAcme and ?o1.0 = "[]" and kws = "[''acme'']"
          and buckets = "[''acme-dev'', ''dev-acme'', ''acme_dev'', ''dev_acme'', ''acmedev'',
              ''devacme'', ''acme'', ''acme.com'', ''acme.net'', ''acme.org'']"
          and err = "''permission denied''",
          THEN conjunct2, THEN conjunct2, THEN conjunct2, THEN conjunct2, THEN conjunct2,
          THEN conjunct2, THEN conjunct2, THEN conjunct1, THEN mp])
       (rule h8)
  have r9: "isSummary (last (butlast
         [Stdout ''\<newline>Generated 10 bucket names from 1 keyword(s).\<newline>'',
          Stdout ''ERROR: Could not create output file: permission denied\<newline>'']))"
    by (rule C9_fatal_ends_before_scan [where env = envReadOnly and net = netDown
          and fl = flagsAcme and e = OutputFileUncreatable
          and out = "[Stdout ''\<newline>Generated 10 bucket names from 1 keyword(s).\<newline>'',
              Stdout ''ERROR: Could not create output file: permission denied\<newline>'']",
          THEN conjunct2, THEN conjunct2, THEN conjunct2, THEN conjunct2, THEN conjunct2,
          THEN conjunct2, THEN conjunct2, THEN conjunct2, THEN mp, THEN conjunct2, THEN conjunct2,
          THEN conjunct2, THEN conjunct1, THEN mp])
       (simp_all add: run_setup_acme)
  have r1': "main_start envReadOnly netDown (flagsAcme\<lparr>flag_keyword := []\<rparr>)
     = ([Stdout ''ERROR: Provide either a keyword (-n) or a keyword list file (-l)\<newline>'',
         Stderr ''Usage of gcpenum:\<newline>''], None)"
    using r1 by (simp add: envReadOnly_def)
  have r3': "main_start (envReadOnly\<lparr>userHomeDir := Inr ''/home/u''\<rparr>) netDown
        (flagsAcme\<lparr>flag_wordlist := []\<rparr>)
     = ([Stdout ''Wordlist not found. Downloading to /home/u/.config/gcpenum/words.txt...\<newline>'',
         Stdout ''ERROR: Could not create directory .: permission denied\<newline>''], None)"
    using r3 by (simp add: envReadOnly_def wordlistFilename_def)
  have r4': "main_start (envReadOnly\<lparr>userHomeDir := Inr ''/home/u'', mkdirAll := (\<lambda>path. None)\<rparr>)
        netDown (flagsAcme\<lparr>flag_wordlist := []\<rparr>)
     = ([Stdout ''Wordlist not found. Downloading to /home/u/.config/gcpenum/words.txt...\<newline>'',
         Stdout ''ERROR: Failed to download wordlist: no route to host\<newline>''], None)"
    using r4 by (simp add: envReadOnly_def wordlistFilename_def)
  have r8': "main_start envReadOnly netDown flagsAcme
     = ([Stdout ''\<newline>Generated 10 bucket names from 1 keyword(s).\<newline>'',
         Stdout ''ERROR: Could not create output file: permission denied\<newline>''], None)"
    using r8 by (simp add: summaryLine_def digitsOf.simps)
  show ?thesis using r1' r2 r3' r4' r5 r6 r7 r8' r9 by simp
qed

end
